theory Spec2Isabelle
  imports Main "HOL-Library.Word"
begin

section \<open>The scheduler: rust\_scheduler.cpp\<close>

text \<open>
  Sizes and counters of the runtime are machine words (\<open>size_t\<close>, \<open>uintptr_t\<close>); the
  model fixes the 64-bit width.  Incrementing and decrementing wrap around as in C++.
\<close>

type_synonym size_t = "64 word"
type_synonym rust_sched_id = int

text \<open>
  The fields of \<open>rust_scheduler\<close> that its operations read and write.  The vector
  \<open>threads\<close> holds one launcher per index below \<open>num_threads\<close>; calls that the
  scheduler makes on a worker's loop or on the kernel are recorded, in order, as
  \<open>sched_call\<close> values.
\<close>

record rust_scheduler =
  live_threads :: size_t
  live_tasks :: size_t
  num_threads :: size_t
  cur_thread :: size_t
  sched_id :: rust_sched_id

datatype sched_call =
    Loop_create_task size_t
  | Loop_exit size_t
  | Loop_kill_all_tasks size_t
  | Launcher_start size_t
  | Kernel_release_scheduler_id rust_sched_id

text \<open>The constructor: \<open>live_threads(num_threads), live_tasks(0), cur_thread(0)\<close>.\<close>

definition new_rust_scheduler :: "size_t \<Rightarrow> rust_sched_id \<Rightarrow> rust_scheduler" where
  "new_rust_scheduler n i =
     \<lparr>live_threads = n, live_tasks = 0, num_threads = n, cur_thread = 0, sched_id = i\<rparr>"

text \<open>
  \<open>for (size_t i = 0; i < num_threads; ++i) threads[i]->get_loop()->f()\<close>: one call
  per worker, in index order.
\<close>

definition each_thread :: "(size_t \<Rightarrow> sched_call) \<Rightarrow> size_t \<Rightarrow> sched_call list" where
  "each_thread f n = map (\<lambda>i. f (of_nat i)) [0..<unat n]"

definition start_task_threads :: "rust_scheduler \<Rightarrow> rust_scheduler \<times> sched_call list" where
  "start_task_threads s = (s, each_thread Launcher_start (num_threads s))"

definition kill_all_tasks_sched :: "rust_scheduler \<Rightarrow> rust_scheduler \<times> sched_call list" where
  "kill_all_tasks_sched s = (s, each_thread Loop_kill_all_tasks (num_threads s))"

text \<open>
  \<open>create_task\<close>: under the lock, \<open>live_tasks++; thread_no = cur_thread++;
  if (cur_thread >= num_threads) cur_thread = 0\<close>; then \<open>threads[thread_no]\<close> is
  asked to create the task.  Indexing \<open>threads\<close> at or beyond \<open>num_threads\<close> has no
  defined result: \<open>None\<close>.
\<close>

definition create_task :: "rust_scheduler \<Rightarrow> (rust_scheduler \<times> sched_call list) option" where
  "create_task s =
     (let s1 = s\<lparr>live_tasks := live_tasks s + 1\<rparr>;
          thread_no = cur_thread s1;
          s2 = s1\<lparr>cur_thread := cur_thread s1 + 1\<rparr>;
          s3 = (if cur_thread s2 \<ge> num_threads s2 then s2\<lparr>cur_thread := 0\<rparr> else s2)
      in if thread_no < num_threads s3
         then Some (s3, [Loop_create_task thread_no])
         else None)"

definition exit_sched :: "rust_scheduler \<Rightarrow> rust_scheduler \<times> sched_call list" where
  "exit_sched s = (let current_num_threads = num_threads s
                   in (s, each_thread Loop_exit current_num_threads))"

definition release_task :: "rust_scheduler \<Rightarrow> rust_scheduler \<times> sched_call list" where
  "release_task s =
     (let s1 = s\<lparr>live_tasks := live_tasks s - 1\<rparr>;
          need_exit = (live_tasks s1 = 0)
      in if need_exit then exit_sched s1 else (s1, []))"

definition release_task_thread :: "rust_scheduler \<Rightarrow> rust_scheduler \<times> sched_call list" where
  "release_task_thread s =
     (let s1 = s\<lparr>live_threads := live_threads s - 1\<rparr>;
          new_live_threads = live_threads s1
      in (s1, if new_live_threads = 0
              then [Kernel_release_scheduler_id (sched_id s1)]
              else []))"

text \<open>
  Tasks spawned back to back: \<open>n\<close> calls of \<open>create_task\<close>, the calls made on the
  workers collected in order.
\<close>

fun spawn_tasks :: "nat \<Rightarrow> rust_scheduler \<Rightarrow> (rust_scheduler \<times> sched_call list) option" where
  "spawn_tasks 0 s = Some (s, [])"
| "spawn_tasks (Suc n) s =
     (case create_task s of
        None \<Rightarrow> None
      | Some (s1, cs) \<Rightarrow>
          (case spawn_tasks n s1 of
             None \<Rightarrow> None
           | Some (s2, ds) \<Rightarrow> Some (s2, cs @ ds)))"

text \<open>
  Every worker thread runs \<open>start_main_loop\<close> and then calls
  \<open>sched->release_task_thread()\<close> once (\<open>rust_task_thread::run\<close>); \<open>workers_exit k\<close>
  is the scheduler after \<open>k\<close> workers have done so, with the kernel calls made.
\<close>

fun workers_exit :: "nat \<Rightarrow> rust_scheduler \<Rightarrow> rust_scheduler \<times> sched_call list" where
  "workers_exit 0 s = (s, [])"
| "workers_exit (Suc k) s =
     (let (s1, cs) = workers_exit k s; (s2, ds) = release_task_thread s1
      in (s2, cs @ ds))"

definition deregisters :: "sched_call list \<Rightarrow> bool" where
  "deregisters cs = (\<exists>c \<in> set cs. case c of Kernel_release_scheduler_id _ \<Rightarrow> True | _ \<Rightarrow> False)"

text \<open>The cursor after one more spawn, and the worker that receives the \<open>i\<close>-th spawn.\<close>

definition next_thread :: "rust_scheduler \<Rightarrow> size_t" where
  "next_thread s = (if cur_thread s + 1 \<ge> num_threads s then 0 else cur_thread s + 1)"

definition worker_of :: "rust_scheduler \<Rightarrow> nat \<Rightarrow> size_t" where
  "worker_of s i = of_nat ((unat (cur_thread s) + i) mod unat (num_threads s))"

section \<open>Tasks, ports and the worker's task lists\<close>

text \<open>
  Objects are held in heaps indexed by their addresses; a pointer that is \<open>NULL\<close> is
  \<open>None\<close>, and dereferencing an address that holds no object is the error
  \<open>Null_pointer\<close>.  A failed \<open>I(...)\<close> or \<open>A(...)\<close> check is the error
  \<open>Assert_failed\<close> with the text of the check; \<open>InvalidArg\<close> is the error of the
  spec's kernel interface.
\<close>

type_synonym task_ref = nat
type_synonym port_ref = nat
type_synonym sel_ref = nat
type_synonym addr = nat
type_synonym rust_task_id = nat
type_synonym rust_port_id = nat

datatype rt_error = Assert_failed string | Null_pointer | Out_of_bounds | InvalidArg

text \<open>The four task lists of a worker; a task's \<open>state\<close> is the list it is on.\<close>

datatype task_list = Newborn | Running | Blocked | Dead

text \<open>
  What a task blocks on (\<open>rust_cond *\<close>): a port or a port selector.
\<close>

datatype rust_cond = Cond_port port_ref | Cond_selector sel_ref

text \<open>
  A destination cell (\<open>uintptr_t *dptr\<close>) receives either a message of the port's unit
  size or, from a select, the reference of the chosen port.
\<close>

datatype 'd val = Data 'd | Port_ptr port_ref

text \<open>
  The selector's published array \<open>ports\<close> (\<open>NULL\<close> is \<open>None\<close>) and its length
  \<open>n_ports\<close>.
\<close>

record rust_port_selector =
  ports :: "port_ref list option"
  n_ports :: size_t

record rust_task =
  task_id :: rust_task_id
  ref_count :: int
  killed :: bool
  supervised :: bool
  state :: task_list
  cond :: "rust_cond option"
  cond_name :: string
  rendezvous_ptr :: "addr option"
  port_table :: "rust_port_id \<rightharpoonup> port_ref"
  stacks :: nat

record 'd rust_port =
  port_id :: rust_port_id
  port_task :: task_ref
  buffer :: "'d list"
  port_ref_count :: int

datatype lock_event =
    Lock port_ref
  | Unlock port_ref
  | Lock_rendezvous sel_ref
  | Unlock_rendezvous sel_ref
  | Lock_task task_ref
  | Unlock_task task_ref

datatype task_call =
    Call_unsupervise task_ref
  | Call_kill task_ref
  | Call_release_task_id rust_task_id
  | Call_delete_all_stacks rust_task_id
  | Call_deref rust_task_id
  | Call_sched_release_task
  | Call_register_task rust_task_id

text \<open>
  The part of the runtime that the operations below work on: the kernel's task table
  with the next task id of its allocator,
  the task, port and selector objects, the four lists of the worker the tasks are pinned to
  together with the number of \<open>lock.signal()\<close> calls made on its lock, the memory of
  destination cells, the order in which locks were taken and released, and the order of
  the calls made on tasks, on the kernel and on the scheduler.
\<close>

record 'd world =
  max_task_id :: rust_task_id
  task_table :: "rust_task_id \<rightharpoonup> task_ref"
  task_heap :: "task_ref \<rightharpoonup> rust_task"
  port_heap :: "port_ref \<rightharpoonup> 'd rust_port"
  selector_heap :: "sel_ref \<rightharpoonup> rust_port_selector"
  newborn_tasks :: "task_ref list"
  running_tasks :: "task_ref list"
  blocked_tasks :: "task_ref list"
  dead_tasks :: "task_ref list"
  signals :: nat
  mem :: "addr \<rightharpoonup> 'd val"
  lock_trace :: "lock_event list"
  call_trace :: "task_call list"

fun get_list :: "task_list \<Rightarrow> 'd world \<Rightarrow> task_ref list" where
  "get_list Newborn w = newborn_tasks w"
| "get_list Running w = running_tasks w"
| "get_list Blocked w = blocked_tasks w"
| "get_list Dead w = dead_tasks w"

fun set_list :: "task_list \<Rightarrow> task_ref list \<Rightarrow> 'd world \<Rightarrow> 'd world" where
  "set_list Newborn ts w = w\<lparr>newborn_tasks := ts\<rparr>"
| "set_list Running ts w = w\<lparr>running_tasks := ts\<rparr>"
| "set_list Blocked ts w = w\<lparr>blocked_tasks := ts\<rparr>"
| "set_list Dead ts w = w\<lparr>dead_tasks := ts\<rparr>"

text \<open>
  Modelled from the spec: \<open>rust_task_list\<close> (its \<open>remove\<close> and \<open>append\<close>) is not
  among the sources; a transition "moves the task" from one list to the other.
\<close>

definition list_remove :: "task_ref \<Rightarrow> task_list \<Rightarrow> 'd world \<Rightarrow> 'd world" where
  "list_remove task l w = set_list l (remove1 task (get_list l w)) w"

definition list_append :: "task_ref \<Rightarrow> task_list \<Rightarrow> 'd world \<Rightarrow> 'd world" where
  "list_append task l w = set_list l (get_list l w @ [task]) w"

text \<open>
  \<open>rust_task_thread::transition\<close>: checks \<open>task->get_state() == src\<close>, removes the
  task from \<open>src\<close>, appends it to \<open>dst\<close>, sets its state, condition and condition name,
  and signals the worker's lock.
\<close>

definition transition ::
  "task_ref \<Rightarrow> task_list \<Rightarrow> task_list \<Rightarrow> rust_cond option \<Rightarrow> string \<Rightarrow> 'd world
     \<Rightarrow> rt_error + 'd world" where
  "transition task src dst cnd cnd_name w =
     (case task_heap w task of
        None \<Rightarrow> Inl Null_pointer
      | Some t \<Rightarrow>
          if state t \<noteq> src then Inl (Assert_failed ''task->get_state() == src'')
          else
            let w1 = list_remove task src w;
                w2 = list_append task dst w1;
                w3 = w2\<lparr>task_heap := (task_heap w2)
                          (task \<mapsto> t\<lparr>state := dst, cond := cnd, cond_name := cnd_name\<rparr>)\<rparr>
            in Inr (w3\<lparr>signals := signals w3 + 1\<rparr>))"

text \<open>
  Modelled from the spec: \<open>rust_task::block\<close>, \<open>blocked_on\<close>, \<open>wakeup\<close>, \<open>kill\<close> and
  \<open>unsupervise\<close> are not among the sources.  \<open>block(on, reason)\<close> asserts state
  running, moves the task from running to blocked and stores the condition and the
  reason.  \<open>wakeup(from)\<close> asserts state blocked and \<open>cond == from\<close> and moves the task
  from blocked to running.  \<open>kill()\<close> sets \<open>killed\<close> and, if the task is blocked, wakes
  it.  \<open>unsupervise()\<close> clears \<open>supervised\<close>.
\<close>

definition block :: "task_ref \<Rightarrow> rust_cond \<Rightarrow> string \<Rightarrow> 'd world \<Rightarrow> rt_error + 'd world" where
  "block task on name w =
     (case task_heap w task of
        None \<Rightarrow> Inl Null_pointer
      | Some t \<Rightarrow>
          if state t \<noteq> Running then Inl (Assert_failed ''running()'')
          else transition task Running Blocked (Some on) name w)"

definition blocked_on :: "task_ref \<Rightarrow> rust_cond \<Rightarrow> 'd world \<Rightarrow> bool" where
  "blocked_on task on w =
     (case task_heap w task of
        None \<Rightarrow> False
      | Some t \<Rightarrow> state t = Blocked \<and> cond t = Some on)"

definition wakeup :: "task_ref \<Rightarrow> rust_cond option \<Rightarrow> 'd world \<Rightarrow> rt_error + 'd world" where
  "wakeup task from w =
     (case task_heap w task of
        None \<Rightarrow> Inl Null_pointer
      | Some t \<Rightarrow>
          if state t \<noteq> Blocked then Inl (Assert_failed ''blocked()'')
          else if cond t \<noteq> from then Inl (Assert_failed ''cond == from'')
          else transition task Blocked Running None ''none'' w)"

definition kill :: "task_ref \<Rightarrow> 'd world \<Rightarrow> rt_error + 'd world" where
  "kill task w =
     (case task_heap w task of
        None \<Rightarrow> Inl Null_pointer
      | Some t \<Rightarrow>
          let w1 = w\<lparr>task_heap := (task_heap w)(task \<mapsto> t\<lparr>killed := True\<rparr>)\<rparr>
          in if state t = Blocked then wakeup task (cond t) w1 else Inr w1)"

definition unsupervise :: "task_ref \<Rightarrow> 'd world \<Rightarrow> rt_error + 'd world" where
  "unsupervise task w =
     (case task_heap w task of
        None \<Rightarrow> Inl Null_pointer
      | Some t \<Rightarrow> Inr (w\<lparr>task_heap := (task_heap w)(task \<mapsto> t\<lparr>supervised := False\<rparr>)\<rparr>))"

text \<open>Taking and releasing a port's lock, in the order the calls are made.\<close>

definition lock_port :: "port_ref \<Rightarrow> 'd world \<Rightarrow> 'd world" where
  "lock_port p w = w\<lparr>lock_trace := lock_trace w @ [Lock p]\<rparr>"

definition unlock_port :: "port_ref \<Rightarrow> 'd world \<Rightarrow> 'd world" where
  "unlock_port p w = w\<lparr>lock_trace := lock_trace w @ [Unlock p]\<rparr>"

text \<open>
  Modelled from the spec: \<open>rust_port::receive\<close> is not among the sources.  It returns
  true and pops one message into \<open>dst\<close> if the buffer is non-empty; otherwise it
  returns false.
\<close>

definition receive :: "port_ref \<Rightarrow> addr \<Rightarrow> 'd world \<Rightarrow> rt_error + (bool \<times> 'd world)" where
  "receive port dptr w =
     (case port_heap w port of
        None \<Rightarrow> Inl Null_pointer
      | Some p \<Rightarrow>
          (case buffer p of
             [] \<Rightarrow> Inr (False, w)
           | m # ms \<Rightarrow>
               Inr (True, w\<lparr>port_heap := (port_heap w)(port \<mapsto> p\<lparr>buffer := ms\<rparr>),
                             mem := (mem w)(dptr \<mapsto> Data m)\<rparr>)))"

subsection \<open>Blocking receive: port\_recv\<close>

text \<open>
  \<open>port_recv(dptr, port, yield, killed)\<close> for the current task \<open>self\<close>.  The result
  carries the two output flags \<open>*yield\<close> and \<open>*killed\<close>.  The port's lock is a scoped
  lock: it is released on each way out of the block.
\<close>

record 'd recv_result =
  yield_out :: bool
  killed_out :: bool
  world_out :: "'d world"

definition port_recv ::
  "addr \<Rightarrow> port_ref \<Rightarrow> task_ref \<Rightarrow> 'd world \<Rightarrow> rt_error + 'd recv_result" where
  "port_recv dptr port self w =
     (case task_heap w self of
        None \<Rightarrow> Inl Null_pointer
      | Some task \<Rightarrow>
          let w1 = lock_port port w in
          (case receive port dptr w1 of
             Inl e \<Rightarrow> Inl e
           | Inr (True, w2) \<Rightarrow>
               Inr \<lparr>yield_out = False, killed_out = False, world_out = unlock_port port w2\<rparr>
           | Inr (False, w2) \<Rightarrow>
               if killed task
               then Inr \<lparr>yield_out = False, killed_out = True,
                         world_out = unlock_port port w2\<rparr>
               else
                 let w3 = w2\<lparr>task_heap := (task_heap w2)
                                (self \<mapsto> task\<lparr>rendezvous_ptr := Some dptr\<rparr>)\<rparr>
                 in (case block self (Cond_port port) ''waiting for rendezvous data'' w3 of
                       Inl e \<Rightarrow> Inl e
                     | Inr w4 \<Rightarrow>
                         Inr \<lparr>yield_out = True, killed_out = False,
                              world_out = unlock_port port w4\<rparr>)))"

text \<open>
  A small concrete runtime: task 0, running on the worker, owns port 1 (port id 0) whose
  buffer is \<open>buf\<close>; \<open>kl\<close> is the task's \<open>killed\<close> flag.
\<close>

definition empty_task :: rust_task where
  "empty_task = \<lparr>task_id = 0, ref_count = 1, killed = False, supervised = True,
     state = Running, cond = None, cond_name = ''none'', rendezvous_ptr = None,
     port_table = Map.empty, stacks = 1\<rparr>"

definition empty_world :: "'d world" where
  "empty_world = \<lparr>max_task_id = 0, task_table = Map.empty, task_heap = Map.empty, port_heap = Map.empty,
     selector_heap = Map.empty,
     newborn_tasks = [], running_tasks = [], blocked_tasks = [], dead_tasks = [],
     signals = 0, mem = Map.empty, lock_trace = [], call_trace = []\<rparr>"

definition receiver_task :: "bool \<Rightarrow> rust_task" where
  "receiver_task kl = empty_task\<lparr>killed := kl, port_table := [0 \<mapsto> 1]\<rparr>"

definition receiver_port :: "'d list \<Rightarrow> 'd rust_port" where
  "receiver_port buf = \<lparr>port_id = 0, port_task = 0, buffer = buf, port_ref_count = 1\<rparr>"

definition receiver_world :: "'d list \<Rightarrow> bool \<Rightarrow> 'd world" where
  "receiver_world buf kl = empty_world\<lparr>
      max_task_id := 1,
      task_table := [0 \<mapsto> 0],
      task_heap := [0 \<mapsto> receiver_task kl],
      port_heap := [1 \<mapsto> receiver_port buf],
      running_tasks := [0]\<rparr>"

subsection \<open>Killing all tasks of a worker: kill\_all\_tasks\<close>

text \<open>
  The loop \<open>while (!all_tasks.empty())\<close>: the task at the back of the vector is taken
  off it, unsupervised and then killed.  The two calls are recorded in \<open>call_trace\<close> in
  the order they are made.
\<close>

function kill_loop :: "task_ref list \<Rightarrow> 'd world \<Rightarrow> rt_error + 'd world" where
  "kill_loop all_tasks w =
     (if all_tasks = [] then Inr w
      else
        let task = last all_tasks;
            rest = butlast all_tasks;
            w1 = w\<lparr>call_trace := call_trace w @ [Call_unsupervise task]\<rparr>
        in (case unsupervise task w1 of
              Inl e \<Rightarrow> Inl e
            | Inr w2 \<Rightarrow>
                let w3 = w2\<lparr>call_trace := call_trace w2 @ [Call_kill task]\<rparr>
                in (case kill task w3 of
                      Inl e \<Rightarrow> Inl e
                    | Inr w4 \<Rightarrow> kill_loop rest w4)))"
  by pat_completeness auto
termination
  by (relation "measure (\<lambda>(all_tasks, w). length all_tasks)") auto

declare kill_loop.simps [simp del]

text \<open>
  \<open>rust_task_thread::kill_all_tasks\<close>: under the worker's lock the running tasks and
  then the blocked tasks are copied into \<open>all_tasks\<close>; the loop runs on that copy.
\<close>

definition kill_all_tasks :: "'d world \<Rightarrow> rt_error + 'd world" where
  "kill_all_tasks w =
     (let all_tasks = running_tasks w @ blocked_tasks w
      in kill_loop all_tasks w)"

text \<open>What the loop body does to one task.\<close>

definition kill_one :: "task_ref \<Rightarrow> 'd world \<Rightarrow> rt_error + 'd world" where
  "kill_one task w =
     (case unsupervise task (w\<lparr>call_trace := call_trace w @ [Call_unsupervise task]\<rparr>) of
        Inl e \<Rightarrow> Inl e
      | Inr w2 \<Rightarrow> kill task (w2\<lparr>call_trace := call_trace w2 @ [Call_kill task]\<rparr>))"

definition kill_calls :: "task_ref list \<Rightarrow> task_call list" where
  "kill_calls ts = concat (map (\<lambda>t. [Call_unsupervise t, Call_kill t]) ts)"

text \<open>
  Two tasks on the worker of \<open>empty_world\<close>: task 0 is running and supervised, task 1
  is blocked on port 5; task 2 is newborn and task 3 is dead.
\<close>

definition four_task_world :: "nat world" where
  "four_task_world = empty_world\<lparr>
      max_task_id := 4,
      task_heap := [0 \<mapsto> empty_task,
                    1 \<mapsto> empty_task\<lparr>task_id := 1, state := Blocked, cond := Some (Cond_port 5),
                                     cond_name := ''waiting for rendezvous data''\<rparr>,
                    2 \<mapsto> empty_task\<lparr>task_id := 2, state := Newborn\<rparr>,
                    3 \<mapsto> empty_task\<lparr>task_id := 3, state := Dead\<rparr>],
      newborn_tasks := [2], running_tasks := [0], blocked_tasks := [1], dead_tasks := [3]\<rparr>"

text \<open>A task that has been unsupervised and killed.\<close>

definition marked :: "'d world \<Rightarrow> task_ref \<Rightarrow> bool" where
  "marked w t = (\<exists>tk. task_heap w t = Some tk \<and> killed tk \<and> \<not> supervised tk)"

subsection \<open>The port selector: rust\_port\_selector.cpp\<close>

text \<open>
  The scanning loop of \<open>select\<close>: \<open>for (size_t i = 0; i < n_ports; i++)\<close> with
  \<open>k = (i + j) % n_ports\<close> in \<open>size_t\<close> arithmetic.  Each scanned port's lock is
  taken and counted; the first port whose buffer is not empty is written to \<open>*dptr\<close>
  and ends the loop.  The result is \<open>found_msg\<close>, \<open>locks_taken\<close> and the world.
\<close>

function select_scan ::
  "port_ref list \<Rightarrow> size_t \<Rightarrow> size_t \<Rightarrow> addr \<Rightarrow> size_t \<Rightarrow> size_t \<Rightarrow> 'd world
     \<Rightarrow> rt_error + (bool \<times> size_t \<times> 'd world)" where
  "select_scan prts n j dptr i locks_taken w =
     (if i < n then
        let k = (i + j) mod n in
        if unat k < length prts then
          let port = prts ! unat k in
          (case port_heap w port of
             None \<Rightarrow> Inl Null_pointer
           | Some p \<Rightarrow>
               let w1 = lock_port port w;
                   locks_taken1 = locks_taken + 1
               in if length (buffer p) > 0
                  then Inr (True, locks_taken1, w1\<lparr>mem := (mem w1)(dptr \<mapsto> Port_ptr port)\<rparr>)
                  else select_scan prts n j dptr (i + 1) locks_taken1 w1)
        else Inl Out_of_bounds
      else Inr (False, locks_taken, w))"
  by pat_completeness auto
termination
proof (relation "measure (\<lambda>(prts, n, j, dptr, i, locks_taken, w). unat n - unat i)")
  show "wf (measure (\<lambda>(prts, n, j, dptr, i, locks_taken, w). unat n - unat i))"
    by simp
next
  fix prts :: "port_ref list" and n j :: size_t and dptr :: addr and i locks_taken :: size_t
    and w :: "'d world" and k port p w1 locks_taken1
  assume lt: "i < n"
  have a: "unat i < unat n" using lt by (simp add: word_less_nat_alt)
  moreover have "unat n < 2 ^ 64" using unsigned_less [of n] by simp
  ultimately have "unat i + 1 < 2 ^ 64" by arith
  then have "unat (i + 1) = unat i + 1" by (simp add: unat_word_ariths)
  with a show "((prts, n, j, dptr, i + 1, locks_taken1, w1), (prts, n, j, dptr, i, locks_taken, w))
          \<in> measure (\<lambda>(prts, n, j, dptr, i, locks_taken, w). unat n - unat i)"
    by simp
qed

declare select_scan.simps [simp del]

text \<open>
  The releasing loop: \<open>for (size_t i = 0; i < locks_taken; i++)\<close> unlocks
  \<open>ports[(i + j) % n_ports]\<close>.
\<close>

function select_unlock ::
  "port_ref list \<Rightarrow> size_t \<Rightarrow> size_t \<Rightarrow> size_t \<Rightarrow> size_t \<Rightarrow> 'd world
     \<Rightarrow> rt_error + 'd world" where
  "select_unlock prts n j i locks_taken w =
     (if i < locks_taken then
        let k = (i + j) mod n in
        if unat k < length prts then
          let port = prts ! unat k in
          select_unlock prts n j (i + 1) locks_taken (unlock_port port w)
        else Inl Out_of_bounds
      else Inr w)"
  by pat_completeness auto
termination
proof (relation "measure (\<lambda>(prts, n, j, i, locks_taken, w). unat locks_taken - unat i)")
  show "wf (measure (\<lambda>(prts, n, j, i, locks_taken, w). unat locks_taken - unat i))"
    by simp
next
  fix prts :: "port_ref list" and n j i locks_taken :: size_t and w :: "'d world" and k port
  assume lt: "i < locks_taken"
  have a: "unat i < unat locks_taken" using lt by (simp add: word_less_nat_alt)
  moreover have "unat locks_taken < 2 ^ 64" using unsigned_less [of locks_taken] by simp
  ultimately have "unat i + 1 < 2 ^ 64" by arith
  then have "unat (i + 1) = unat i + 1" by (simp add: unat_word_ariths)
  with a show "((prts, n, j, i + 1, locks_taken, unlock_port port w),
                (prts, n, j, i, locks_taken, w))
          \<in> measure (\<lambda>(prts, n, j, i, locks_taken, w). unat locks_taken - unat i)"
    by simp
qed

declare select_unlock.simps [simp del]

text \<open>
  \<open>rust_port_selector::select(task, dptr, ports, n_ports, yield)\<close> on the selector
  \<open>this\<close>; \<open>j\<close> is the value that \<open>isaac_rand(&rctx)\<close> returns.  The arguments
  \<open>dptr\<close>, \<open>ports\<close> and \<open>yield\<close> are non-null by their types here; the array
  \<open>ports\<close> is the list \<open>prts\<close>.  The result is the output flag \<open>*yield\<close> and the
  world.  The source remarks that blocking may fail for a task that has already been
  killed and that the task has to yield in both events; the \<open>block\<close> of the spec, used
  here, has no such case, and the yield flag is set after it either way.
\<close>

definition select ::
  "sel_ref \<Rightarrow> task_ref \<Rightarrow> addr \<Rightarrow> port_ref list \<Rightarrow> size_t \<Rightarrow> size_t \<Rightarrow> 'd world
     \<Rightarrow> rt_error + (bool \<times> 'd world)" where
  "select this task dptr prts n j w =
     (case selector_heap w this of
        None \<Rightarrow> Inl Null_pointer
      | Some sel \<Rightarrow>
          if ports sel \<noteq> None then Inl (Assert_failed ''this->ports == NULL'')
          else if n_ports sel \<noteq> 0 then Inl (Assert_failed ''this->n_ports == 0'')
          else if n = 0 then Inl (Assert_failed ''n_ports != 0'')
          else
            (case select_scan prts n j dptr 0 0 w of
               Inl e \<Rightarrow> Inl e
             | Inr (found_msg, locks_taken, w1) \<Rightarrow>
                 if \<not> found_msg then
                   let w2 = w1\<lparr>selector_heap := (selector_heap w1)
                                   (this \<mapsto> sel\<lparr>ports := Some prts, n_ports := n\<rparr>)\<rparr>
                   in (case task_heap w2 task of
                         None \<Rightarrow> Inl Null_pointer
                       | Some t \<Rightarrow>
                           if rendezvous_ptr t \<noteq> None
                           then Inl (Assert_failed ''task->rendezvous_ptr == NULL'')
                           else
                             let w3 = w2\<lparr>task_heap := (task_heap w2)
                                            (task \<mapsto> t\<lparr>rendezvous_ptr := Some dptr\<rparr>)\<rparr>
                             in (case block task (Cond_selector this)
                                        ''waiting for select rendezvous'' w3 of
                                   Inl e \<Rightarrow> Inl e
                                 | Inr w4 \<Rightarrow>
                                     (case select_unlock prts n j 0 locks_taken w4 of
                                        Inl e \<Rightarrow> Inl e
                                      | Inr w5 \<Rightarrow> Inr (True, w5))))
                 else
                   (case select_unlock prts n j 0 locks_taken w1 of
                      Inl e \<Rightarrow> Inl e
                    | Inr w5 \<Rightarrow> Inr (False, w5))))"

text \<open>
  \<open>must_not_have_lock\<close>: a port's lock is held when it has been taken more often than
  released.
\<close>

definition port_lock_held :: "port_ref \<Rightarrow> 'd world \<Rightarrow> bool" where
  "port_lock_held p w =
     (count_list (lock_trace w) (Unlock p) < count_list (lock_trace w) (Lock p))"

text \<open>
  The loop of \<open>msg_sent_on\<close>: \<open>for (size_t i = 0; i < n_ports; i++)
  if (port == ports[i])\<close>, true when the port is found.
\<close>

function msg_scan :: "port_ref \<Rightarrow> port_ref list option \<Rightarrow> size_t \<Rightarrow> size_t \<Rightarrow> rt_error + bool" where
  "msg_scan port ps n i =
     (if i < n then
        (case ps of
           None \<Rightarrow> Inl Null_pointer
         | Some arr \<Rightarrow>
             if unat i < length arr then
               (if port = arr ! unat i then Inr True else msg_scan port ps n (i + 1))
             else Inl Out_of_bounds)
      else Inr False)"
  by pat_completeness auto
termination
proof (relation "measure (\<lambda>(port, ps, n, i). unat n - unat i)")
  show "wf (measure (\<lambda>(port, ps, n, i). unat n - unat i))"
    by simp
next
  fix port :: port_ref and ps :: "port_ref list option" and n i :: size_t and arr
  assume lt: "i < n"
  have a: "unat i < unat n" using lt by (simp add: word_less_nat_alt)
  moreover have "unat n < 2 ^ 64" using unsigned_less [of n] by simp
  ultimately have "unat i + 1 < 2 ^ 64" by arith
  then have "unat (i + 1) = unat i + 1" by (simp add: unat_word_ariths)
  with a show "((port, ps, n, i + 1), (port, ps, n, i))
          \<in> measure (\<lambda>(port, ps, n, i). unat n - unat i)"
    by simp
qed

declare msg_scan.simps [simp del]

text \<open>
  \<open>rust_port_selector::msg_sent_on(port)\<close> on the selector \<open>this\<close>.  The whole body
  after the check of the port's lock runs under the selector's \<open>rendezvous_lock\<close>.
\<close>

definition unlock_rendezvous :: "sel_ref \<Rightarrow> 'd world \<Rightarrow> 'd world" where
  "unlock_rendezvous this w = w\<lparr>lock_trace := lock_trace w @ [Unlock_rendezvous this]\<rparr>"

definition msg_sent_on :: "sel_ref \<Rightarrow> port_ref \<Rightarrow> 'd world \<Rightarrow> rt_error + 'd world" where
  "msg_sent_on this port w =
     (case selector_heap w this of
        None \<Rightarrow> Inl Null_pointer
      | Some sel \<Rightarrow>
          (case port_heap w port of
             None \<Rightarrow> Inl Null_pointer
           | Some p \<Rightarrow>
               let task = port_task p in
               if port_lock_held port w then Inl (Assert_failed ''must_not_have_lock'')
               else
                 let w1 = w\<lparr>lock_trace := lock_trace w @ [Lock_rendezvous this]\<rparr> in
                 if blocked_on task (Cond_selector this) w1 then
                   (case msg_scan port (ports sel) (n_ports sel) 0 of
                      Inl e \<Rightarrow> Inl e
                    | Inr False \<Rightarrow> Inr (unlock_rendezvous this w1)
                    | Inr True \<Rightarrow>
                        let w2 = w1\<lparr>selector_heap := (selector_heap w1)
                                       (this \<mapsto> sel\<lparr>ports := None, n_ports := 0\<rparr>)\<rparr>
                        in (case task_heap w2 task of
                              None \<Rightarrow> Inl Null_pointer
                            | Some t \<Rightarrow>
                                (case rendezvous_ptr t of
                                   None \<Rightarrow> Inl Null_pointer
                                 | Some a \<Rightarrow>
                                     let w3 = w2\<lparr>mem := (mem w2)(a \<mapsto> Port_ptr port),
                                                 task_heap := (task_heap w2)
                                                   (task \<mapsto> t\<lparr>rendezvous_ptr := None\<rparr>)\<rparr>
                                     in (case wakeup task (Some (Cond_selector this)) w3 of
                                           Inl e \<Rightarrow> Inl e
                                         | Inr w4 \<Rightarrow> Inr (unlock_rendezvous this w4)))))
                 else Inr (unlock_rendezvous this w1)))"

text \<open>
  Senders that call \<open>msg_sent_on\<close> on the same selector are serialised by its
  \<open>rendezvous_lock\<close>; \<open>msgs_sent_on\<close> runs the calls in the order in which they take
  the lock.
\<close>

fun msgs_sent_on :: "sel_ref \<Rightarrow> port_ref list \<Rightarrow> 'd world \<Rightarrow> rt_error + 'd world" where
  "msgs_sent_on this [] w = Inr w"
| "msgs_sent_on this (q # qs) w =
     (case msg_sent_on this q w of
        Inl e \<Rightarrow> Inl e
      | Inr w1 \<Rightarrow> msgs_sent_on this qs w1)"

text \<open>
  The port that the \<open>i\<close>-th turn of the scanning loop looks at, \<open>ports[(i + j) % n_ports]\<close>,
  and whether a port's buffer holds a message.
\<close>

definition rotated :: "port_ref list \<Rightarrow> size_t \<Rightarrow> size_t \<Rightarrow> nat \<Rightarrow> port_ref" where
  "rotated prts n j i = prts ! unat ((of_nat i + j) mod n)"

definition has_message :: "'d world \<Rightarrow> port_ref \<Rightarrow> bool" where
  "has_message w p = (case port_heap w p of None \<Rightarrow> False | Some q \<Rightarrow> buffer q \<noteq> [])"

text \<open>
  A concrete runtime for a select: task 0, running, with selector 9 and the three
  ports 4, 5 and 6, whose buffers are \<open>b4\<close>, \<open>b5\<close> and \<open>b6\<close>.
\<close>

definition select_task :: rust_task where
  "select_task = empty_task\<lparr>port_table := [4 \<mapsto> 4, 5 \<mapsto> 5, 6 \<mapsto> 6]\<rparr>"

definition select_world :: "nat list \<Rightarrow> nat list \<Rightarrow> nat list \<Rightarrow> nat world" where
  "select_world b4 b5 b6 = empty_world\<lparr>
      max_task_id := 1,
      task_table := [0 \<mapsto> 0],
      task_heap := [0 \<mapsto> select_task],
      port_heap := [4 \<mapsto> \<lparr>port_id = 4, port_task = 0, buffer = b4, port_ref_count = 1\<rparr>,
                    5 \<mapsto> \<lparr>port_id = 5, port_task = 0, buffer = b5, port_ref_count = 1\<rparr>,
                    6 \<mapsto> \<lparr>port_id = 6, port_task = 0, buffer = b6, port_ref_count = 1\<rparr>],
      selector_heap := [9 \<mapsto> \<lparr>ports = None, n_ports = 0\<rparr>],
      running_tasks := [0]\<rparr>"

text \<open>The rendezvous lock taken and released by \<open>k\<close> calls of \<open>msg_sent_on\<close>.\<close>

definition rendezvous_events :: "sel_ref \<Rightarrow> nat \<Rightarrow> lock_event list" where
  "rendezvous_events this k = concat (replicate k [Lock_rendezvous this, Unlock_rendezvous this])"

text \<open>
  The runtime of \<open>select_world\<close> with empty buffers after task 0 has blocked in a select
  on the ports 4, 5 and 6 with destination cell 50.
\<close>

definition blocked_select_task :: rust_task where
  "blocked_select_task = select_task\<lparr>state := Blocked, cond := Some (Cond_selector 9),
      cond_name := ''waiting for select rendezvous'', rendezvous_ptr := Some 50\<rparr>"

definition blocked_select_world :: "nat world" where
  "blocked_select_world = (select_world [] [] [])\<lparr>
      selector_heap := [9 \<mapsto> \<lparr>ports = Some [4, 5, 6], n_ports = 3\<rparr>],
      task_heap := [0 \<mapsto> blocked_select_task],
      running_tasks := [], blocked_tasks := [0]\<rparr>"

subsection \<open>Reference counts and channel sends\<close>

text \<open>
  \<open>rust_task_thread::release_task\<close>: nobody may hold a reference to the task and the
  kernel must not know its id any more; the task is deleted and the scheduler is told
  that one task is gone.
\<close>

definition thread_release_task :: "task_ref \<Rightarrow> 'd world \<Rightarrow> rt_error + 'd world" where
  "thread_release_task task w =
     (case task_heap w task of
        None \<Rightarrow> Inl Null_pointer
      | Some t \<Rightarrow>
          if ref_count t \<noteq> 0 then Inl (Assert_failed ''task->get_ref_count() == 0'')
          else if task_table w (task_id t) \<noteq> None
          then Inl (Assert_failed ''kernel->get_task_by_id(task->id) == NULL'')
          else Inr (w\<lparr>task_heap := (task_heap w)(task := None),
                      call_trace := call_trace w @ [Call_sched_release_task]\<rparr>))"

text \<open>
  Modelled from the spec: the reference counting of tasks and ports and the two lookups
  are not among the sources.  \<open>get_task\<close> returns the task registered under an id and
  increments its reference count on a hit; each successful port lookup increments the
  port's reference count; \<open>deref\<close> decrements the count, and a task whose count
  reaches zero is released by its worker, a port whose count reaches zero is deleted.
\<close>

definition get_task_by_id ::
  "rust_task_id \<Rightarrow> 'd world \<Rightarrow> rt_error + (task_ref option \<times> 'd world)" where
  "get_task_by_id tid w =
     (case task_table w tid of
        None \<Rightarrow> Inr (None, w)
      | Some task \<Rightarrow>
          (case task_heap w task of
             None \<Rightarrow> Inl Null_pointer
           | Some t \<Rightarrow>
               Inr (Some task,
                    w\<lparr>task_heap := (task_heap w)(task \<mapsto> t\<lparr>ref_count := ref_count t + 1\<rparr>)\<rparr>)))"

definition get_port_by_id ::
  "task_ref \<Rightarrow> rust_port_id \<Rightarrow> 'd world \<Rightarrow> rt_error + (port_ref option \<times> 'd world)" where
  "get_port_by_id task pid w =
     (case task_heap w task of
        None \<Rightarrow> Inl Null_pointer
      | Some t \<Rightarrow>
          (case port_table t pid of
             None \<Rightarrow> Inr (None, w)
           | Some port \<Rightarrow>
               (case port_heap w port of
                  None \<Rightarrow> Inl Null_pointer
                | Some p \<Rightarrow>
                    Inr (Some port,
                         w\<lparr>port_heap := (port_heap w)
                              (port \<mapsto> p\<lparr>port_ref_count := port_ref_count p + 1\<rparr>)\<rparr>))))"

definition deref_task :: "task_ref \<Rightarrow> 'd world \<Rightarrow> rt_error + 'd world" where
  "deref_task task w =
     (case task_heap w task of
        None \<Rightarrow> Inl Null_pointer
      | Some t \<Rightarrow>
          let w1 = w\<lparr>task_heap := (task_heap w)(task \<mapsto> t\<lparr>ref_count := ref_count t - 1\<rparr>)\<rparr>
          in if ref_count t - 1 = 0 then thread_release_task task w1 else Inr w1)"

definition deref_port :: "port_ref \<Rightarrow> 'd world \<Rightarrow> rt_error + 'd world" where
  "deref_port port w =
     (case port_heap w port of
        None \<Rightarrow> Inl Null_pointer
      | Some p \<Rightarrow>
          if port_ref_count p - 1 = 0
          then Inr (w\<lparr>port_heap := (port_heap w)(port := None)\<rparr>)
          else Inr (w\<lparr>port_heap := (port_heap w)
                         (port \<mapsto> p\<lparr>port_ref_count := port_ref_count p - 1\<rparr>)\<rparr>))"

text \<open>
  Modelled from the spec: \<open>rust_port::send\<close> is not among the sources.  Under the
  port's lock a copy of the data is appended to the buffer.  If the owning task is
  blocked on this port and its rendezvous slot is set, the message is instead copied
  to \<open>*rendezvous_ptr\<close>, the slot is cleared and the receiver is woken, with no buffer
  append.  If the owner is blocked on a selector, \<open>msg_sent_on(port)\<close> is invoked on the
  selector (the port's lock must not be held then).  A send to a port whose owner is
  gone is dropped.
\<close>

definition send :: "port_ref \<Rightarrow> 'd \<Rightarrow> 'd world \<Rightarrow> rt_error + 'd world" where
  "send port d w =
     (case port_heap w port of
        None \<Rightarrow> Inl Null_pointer
      | Some p \<Rightarrow>
          let task = port_task p;
              w1 = lock_port port w
          in (case task_heap w1 task of
                None \<Rightarrow> Inr (unlock_port port w1)
              | Some t \<Rightarrow>
                  if blocked_on task (Cond_port port) w1 \<and> rendezvous_ptr t \<noteq> None then
                    let w2 = w1\<lparr>mem := (mem w1)(the (rendezvous_ptr t) \<mapsto> Data d),
                                task_heap := (task_heap w1)
                                  (task \<mapsto> t\<lparr>rendezvous_ptr := None\<rparr>)\<rparr>
                    in (case wakeup task (Some (Cond_port port)) w2 of
                          Inl e \<Rightarrow> Inl e
                        | Inr w3 \<Rightarrow> Inr (unlock_port port w3))
                  else
                    let w2 = unlock_port port
                               (w1\<lparr>port_heap := (port_heap w1)
                                     (port \<mapsto> p\<lparr>buffer := buffer p @ [d]\<rparr>)\<rparr>)
                    in (case cond t of
                          Some (Cond_selector s) \<Rightarrow>
                            if state t = Blocked then msg_sent_on s port w2 else Inr w2
                        | _ \<Rightarrow> Inr w2)))"

text \<open>
  \<open>chan_id_send(t, target_task_id, target_port_id, sptr)\<close>: the result is the flag
  \<open>sent\<close> and the world.  The port is dereferenced under the target task's lock.
\<close>

definition chan_id_send ::
  "rust_task_id \<Rightarrow> rust_port_id \<Rightarrow> 'd \<Rightarrow> 'd world \<Rightarrow> rt_error + (bool \<times> 'd world)" where
  "chan_id_send target_task_id target_port_id sptr w =
     (case get_task_by_id target_task_id w of
        Inl e \<Rightarrow> Inl e
      | Inr (None, w1) \<Rightarrow> Inr (False, w1)
      | Inr (Some target_task, w1) \<Rightarrow>
          (case get_port_by_id target_task target_port_id w1 of
             Inl e \<Rightarrow> Inl e
           | Inr (None, w2) \<Rightarrow>
               (case deref_task target_task w2 of
                  Inl e \<Rightarrow> Inl e
                | Inr w3 \<Rightarrow> Inr (False, w3))
           | Inr (Some port, w2) \<Rightarrow>
               (case send port sptr w2 of
                  Inl e \<Rightarrow> Inl e
                | Inr w3 \<Rightarrow>
                    let w4 = w3\<lparr>lock_trace := lock_trace w3 @ [Lock_task target_task]\<rparr> in
                    (case deref_port port w4 of
                       Inl e \<Rightarrow> Inl e
                     | Inr w5 \<Rightarrow>
                         let w6 = w5\<lparr>lock_trace := lock_trace w5 @ [Unlock_task target_task]\<rparr>
                         in (case deref_task target_task w6 of
                               Inl e \<Rightarrow> Inl e
                             | Inr w7 \<Rightarrow> Inr (True, w7))))))"

subsection \<open>The event-loop thread: completion messages\<close>

text \<open>The tags of \<open>iomsg\<close> and the members of its union.\<close>

definition whatever_tag :: int where "whatever_tag = 0"
definition connected_tag :: int where "connected_tag = 1"
definition wrote_tag :: int where "wrote_tag = 2"
definition read_tag :: int where "read_tag = 3"
definition timer_tag :: int where "timer_tag = 4"
definition exit_tag :: int where "exit_tag = 5"

datatype iomsg_val =
    Connected_val addr
  | Wrote_val addr
  | Read_val addr addr int
  | Timer_req_id nat

record iomsg =
  tag :: int
  val :: iomsg_val

record chan_handle =
  chan_task :: rust_task_id
  chan_port :: rust_port_id

record write_data =
  wd_cd :: addr
  wd_buf :: addr
  wd_len :: nat
  wd_chan :: chan_handle

record read_start_data =
  rd_cd :: addr
  rd_chan :: chan_handle

text \<open>
  The static \<open>send(task, chan, data)\<close> of the event-loop thread, a copy of
  \<open>chan_id_send\<close> without the result flag.
\<close>

definition uv_send :: "chan_handle \<Rightarrow> 'd \<Rightarrow> 'd world \<Rightarrow> rt_error + 'd world" where
  "uv_send chan d w =
     (case get_task_by_id (chan_task chan) w of
        Inl e \<Rightarrow> Inl e
      | Inr (None, w1) \<Rightarrow> Inr w1
      | Inr (Some target_task, w1) \<Rightarrow>
          (case get_port_by_id target_task (chan_port chan) w1 of
             Inl e \<Rightarrow> Inl e
           | Inr (None, w2) \<Rightarrow> deref_task target_task w2
           | Inr (Some port, w2) \<Rightarrow>
               (case send port d w2 of
                  Inl e \<Rightarrow> Inl e
                | Inr w3 \<Rightarrow>
                    let w4 = w3\<lparr>lock_trace := lock_trace w3 @ [Lock_task target_task]\<rparr> in
                    (case deref_port port w4 of
                       Inl e \<Rightarrow> Inl e
                     | Inr w5 \<Rightarrow>
                         deref_task target_task
                           (w5\<lparr>lock_trace := lock_trace w5 @ [Unlock_task target_task]\<rparr>)))))"

text \<open>
  The completion callbacks build the message and send it on the channel of the
  request: \<open>on_connect\<close> for a connection (the channel is \<open>cd->chan\<close>), \<open>on_write\<close> for
  a write, \<open>on_read\<close> for a read.
\<close>

definition on_connect_msg :: "addr \<Rightarrow> iomsg" where
  "on_connect_msg cd = \<lparr>tag = connected_tag, val = Connected_val cd\<rparr>"

definition on_connect :: "addr \<Rightarrow> chan_handle \<Rightarrow> iomsg world \<Rightarrow> rt_error + iomsg world" where
  "on_connect cd cd_chan w = uv_send cd_chan (on_connect_msg cd) w"

definition on_write_msg :: "write_data \<Rightarrow> iomsg" where
  "on_write_msg wd = \<lparr>tag = timer_tag, val = Wrote_val (wd_cd wd)\<rparr>"

definition on_write :: "write_data \<Rightarrow> iomsg world \<Rightarrow> rt_error + iomsg world" where
  "on_write wd w = uv_send (wd_chan wd) (on_write_msg wd) w"

definition on_read_msg :: "read_start_data \<Rightarrow> int \<Rightarrow> addr \<Rightarrow> iomsg" where
  "on_read_msg rd nread buf_base = \<lparr>tag = read_tag, val = Read_val (rd_cd rd) buf_base nread\<rparr>"

definition on_read ::
  "read_start_data \<Rightarrow> int \<Rightarrow> addr \<Rightarrow> iomsg world \<Rightarrow> rt_error + iomsg world" where
  "on_read rd nread buf_base w = uv_send (rd_chan rd) (on_read_msg rd nread buf_base) w"

text \<open>
  What the reference counting is about: the kernel's table and, for every task and port
  object, its reference count together with the task's id and port table and the
  port's owner.
\<close>

definition counts ::
  "'d world \<Rightarrow> (rust_task_id \<rightharpoonup> task_ref)
      \<times> (task_ref \<rightharpoonup> int \<times> rust_task_id \<times> (rust_port_id \<rightharpoonup> port_ref))
      \<times> (port_ref \<rightharpoonup> int \<times> task_ref)" where
  "counts v =
     (task_table v,
      (\<lambda>x. map_option (\<lambda>t. (ref_count t, task_id t, port_table t)) (task_heap v x)),
      (\<lambda>y. map_option (\<lambda>p. (port_ref_count p, port_task p)) (port_heap v y)))"

text \<open>The world after both lookups of a channel send have hit.\<close>

definition lookups_done ::
  "task_ref \<Rightarrow> rust_task \<Rightarrow> port_ref \<Rightarrow> 'd rust_port \<Rightarrow> 'd world \<Rightarrow> 'd world" where
  "lookups_done tr tk pr p w =
     w\<lparr>task_heap := (task_heap w)(tr \<mapsto> tk\<lparr>ref_count := ref_count tk + 1\<rparr>),
       port_heap := (port_heap w)(pr \<mapsto> p\<lparr>port_ref_count := port_ref_count p + 1\<rparr>)\<rparr>"

subsection \<open>Creating schedulers\<close>

text \<open>
  The kernel's scheduler registry: the next scheduler id and the table of registered
  schedulers.
\<close>

record rust_kernel =
  max_sched_id :: rust_sched_id
  sched_table :: "rust_sched_id \<rightharpoonup> rust_scheduler"

text \<open>
  Modelled from the spec: \<open>rust_kernel::create_scheduler\<close> is not among the sources.
  \<open>create_scheduler(num_threads)\<close> allocates an id from the kernel's monotonic
  allocator, constructs a scheduler with \<open>num_threads\<close> workers, starts them, registers
  the scheduler and returns the id; it fails with \<open>InvalidArg\<close> when \<open>num_threads\<close> is 0.
  The result is the id, the kernel and the calls made to start the workers.
\<close>

definition create_scheduler ::
  "size_t \<Rightarrow> rust_kernel \<Rightarrow> rt_error + (rust_sched_id \<times> rust_kernel \<times> sched_call list)" where
  "create_scheduler n k =
     (if n = 0 then Inl InvalidArg
      else
        let i = max_sched_id k;
            (sched, calls) = start_task_threads (new_rust_scheduler n i)
        in Inr (i, k\<lparr>max_sched_id := i + 1, sched_table := (sched_table k)(i \<mapsto> sched)\<rparr>,
                calls))"

text \<open>
  \<open>rust_new_sched(threads)\<close>: the check \<open>A(task->thread, threads > 0, ...)\<close> and then
  \<open>task->kernel->create_scheduler(threads)\<close>.
\<close>

definition rust_new_sched ::
  "size_t \<Rightarrow> rust_kernel \<Rightarrow> rt_error + (rust_sched_id \<times> rust_kernel \<times> sched_call list)" where
  "rust_new_sched threads k =
     (if \<not> threads > 0 then Inl (Assert_failed ''threads > 0'')
      else create_scheduler threads k)"

text \<open>Every registered scheduler id lies below the next id to be allocated.\<close>

definition ids_below_next :: "rust_kernel \<Rightarrow> bool" where
  "ids_below_next k = (\<forall>i \<in> dom (sched_table k). i < max_sched_id k)"

text \<open>A kernel in which two schedulers, with one and with two workers, are registered.\<close>

definition busy_kernel :: rust_kernel where
  "busy_kernel =
     \<lparr>max_sched_id = 2,
      sched_table = [0 \<mapsto> new_rust_scheduler 1 0, 1 \<mapsto> new_rust_scheduler 2 1]\<rparr>"

subsection \<open>The worker's scheduling loop and the reaping of dead tasks\<close>







text \<open>
  The tasks of the worker are those on its four lists.  The kernel's task table, its
  id allocator and the heap of task objects are shared with the other workers of the
  runtime, whose lists are not part of the world.
\<close>

definition listed :: "'d world \<Rightarrow> task_ref \<Rightarrow> bool" where
  "listed w t =
     (t \<in> set (newborn_tasks w @ running_tasks w @ blocked_tasks w @ dead_tasks w))"












text \<open>
  The ids that the worker has released from the kernel's table so far, and the ids
  under which the tasks created on the worker were registered, in order.
\<close>

fun released_ids :: "task_call list \<Rightarrow> rust_task_id list" where
  "released_ids [] = []"
| "released_ids (Call_release_task_id i # cs) = i # released_ids cs"
| "released_ids (c # cs) = released_ids cs"

fun registered_ids :: "task_call list \<Rightarrow> rust_task_id list" where
  "registered_ids [] = []"
| "registered_ids (Call_register_task i # cs) = i # registered_ids cs"
| "registered_ids (c # cs) = registered_ids cs"



text \<open>
  The dead list between the turns of the loop is empty; while a task is activated it
  holds at most that task.
\<close>

definition dead_ok :: "task_ref option \<Rightarrow> 'd world \<Rightarrow> bool" where
  "dead_ok active w =
     (dead_tasks w = [] \<or> (\<exists>t. active = Some t \<and> dead_tasks w = [t]))"





section \<open>Properties of the scheduler\<close>


lemma unat_succ_lt:
  fixes c n :: size_t
  assumes "c < n"
  shows "unat (c + 1) = unat c + 1"
proof -
  have "unat c < unat n" using assms by (simp add: word_less_nat_alt)
  moreover have "unat n < 2 ^ 64" using unsigned_less [of n] by simp
  ultimately have "unat c + 1 < 2 ^ 64" by arith
  then show ?thesis by (simp add: unat_word_ariths)
qed

lemma create_task_eq:
  assumes "cur_thread s < num_threads s"
  shows "create_task s =
           Some (s\<lparr>live_tasks := live_tasks s + 1, cur_thread := next_thread s\<rparr>,
                 [Loop_create_task (cur_thread s)])"
  using assms by (simp add: create_task_def next_thread_def Let_def)

lemma unat_next_thread:
  assumes "cur_thread s < num_threads s"
  shows "unat (next_thread s) = (unat (cur_thread s) + 1) mod unat (num_threads s)"
    and "next_thread s < num_threads s"
proof -
  let ?c = "cur_thread s" and ?n = "num_threads s"
  have u: "unat (?c + 1) = unat ?c + 1" by (rule unat_succ_lt [OF assms])
  have lt: "unat ?c < unat ?n" using assms by (simp add: word_less_nat_alt)
  show "unat (next_thread s) = (unat ?c + 1) mod unat ?n"
  proof (cases "?c + 1 \<ge> ?n")
    case True
    then have "unat ?n \<le> unat ?c + 1" using u by (simp add: word_le_nat_alt)
    with lt have "unat ?c + 1 = unat ?n" by arith
    with True show ?thesis by (simp add: next_thread_def)
  next
    case False
    then have "unat ?c + 1 < unat ?n" using u by (simp add: word_le_nat_alt not_le)
    with False u show ?thesis by (simp add: next_thread_def)
  qed
  show "next_thread s < ?n"
  proof (cases "?c + 1 \<ge> ?n")
    case True
    have "0 < unat ?n" using lt by arith
    then have "(0::size_t) < ?n" by (simp add: word_less_nat_alt)
    moreover have "next_thread s = 0" using True by (simp add: next_thread_def)
    ultimately show ?thesis by simp
  next
    case False
    then show ?thesis by (auto simp add: next_thread_def)
  qed
qed

lemma worker_of_0:
  assumes "cur_thread s < num_threads s"
  shows "worker_of s 0 = cur_thread s"
proof -
  have "unat (cur_thread s) < unat (num_threads s)" using assms by (simp add: word_less_nat_alt)
  then show ?thesis by (simp add: worker_of_def)
qed

lemma spawn_tasks_round_robin:
  assumes "cur_thread s < num_threads s"
  shows "\<exists>s'. spawn_tasks n s = Some (s', map (\<lambda>i. Loop_create_task (worker_of s i)) [0..<n])
           \<and> live_tasks s' = live_tasks s + of_nat n
           \<and> num_threads s' = num_threads s
           \<and> cur_thread s' = worker_of s n"
  using assms
proof (induction n arbitrary: s)
  case 0
  then show ?case by (simp add: worker_of_0)
next
  case (Suc n)
  let ?s1 = "s\<lparr>live_tasks := live_tasks s + 1, cur_thread := next_thread s\<rparr>"
  have lt1: "cur_thread ?s1 < num_threads ?s1"
    using unat_next_thread(2) [OF Suc.prems] by simp
  from Suc.IH [OF lt1] obtain s' where
    sp: "spawn_tasks n ?s1 = Some (s', map (\<lambda>i. Loop_create_task (worker_of ?s1 i)) [0..<n])"
    and lv: "live_tasks s' = live_tasks ?s1 + of_nat n"
    and nt: "num_threads s' = num_threads ?s1"
    and ct: "cur_thread s' = worker_of ?s1 n"
    by blast
  have shift: "worker_of ?s1 i = worker_of s (Suc i)" for i
  proof -
    have "(unat (next_thread s) + i) mod unat (num_threads s)
            = ((unat (cur_thread s) + 1) mod unat (num_threads s) + i) mod unat (num_threads s)"
      by (simp add: unat_next_thread(1) [OF Suc.prems])
    also have "\<dots> = (unat (cur_thread s) + Suc i) mod unat (num_threads s)"
      by (simp add: mod_add_left_eq)
    finally show ?thesis by (simp add: worker_of_def)
  qed
  have m: "map (\<lambda>i. Loop_create_task (worker_of s i)) [0..<Suc n]
           = Loop_create_task (cur_thread s) # map (\<lambda>i. Loop_create_task (worker_of ?s1 i)) [0..<n]"
  proof -
    have "[0..<Suc n] = 0 # map Suc [0..<n]"
      by (simp add: upt_conv_Cons map_Suc_upt del: upt_Suc)
    then show ?thesis
      by (simp add: shift worker_of_0 [OF Suc.prems] comp_def del: upt_Suc)
  qed
  show ?case
    apply (rule exI [of _ s'])
    apply (simp only: spawn_tasks.simps create_task_eq [OF Suc.prems] m)
    apply (simp add: sp lv nt ct shift del: upt_Suc)
    done
qed


lemma of_nat_eq_word_iff:
  fixes n :: size_t
  assumes "k \<le> unat n"
  shows "(n - of_nat k = 0) = (k = unat n)"
proof -
  have "unat n < 2 ^ 64" using unsigned_less [of n] by simp
  with assms have k: "k < 2 ^ 64" by arith
  have "(n - of_nat k = 0) = (n = of_nat k)" by simp
  also have "\<dots> = (unat n = unat (of_nat k :: size_t))" by (simp add: word_unat_eq_iff)
  also have "unat (of_nat k :: size_t) = k" using k by (simp add: unat_of_nat)
  finally show ?thesis by auto
qed

lemma release_task_thread_eq:
  "release_task_thread s =
     (s\<lparr>live_threads := live_threads s - 1\<rparr>,
      if live_threads s - 1 = 0 then [Kernel_release_scheduler_id (sched_id s)] else [])"
  by (simp add: release_task_thread_def Let_def)

lemma workers_exit_eq:
  assumes "k \<le> unat n"
  shows "workers_exit k (new_rust_scheduler n i) =
           ((new_rust_scheduler n i)\<lparr>live_threads := n - of_nat k\<rparr>,
            if 0 < k \<and> k = unat n then [Kernel_release_scheduler_id i] else [])"
  using assms
proof (induction k)
  case 0
  then show ?case by (simp add: new_rust_scheduler_def)
next
  case (Suc k)
  then have le: "k \<le> unat n" and ne: "k \<noteq> unat n" by arith+
  have z: "(n - of_nat (Suc k) = 0) = (Suc k = unat n)"
    by (rule of_nat_eq_word_iff [OF Suc.prems])
  have a: "n - of_nat k - 1 = n - of_nat (Suc k)" by simp
  have w: "workers_exit (Suc k) (new_rust_scheduler n i) =
           ((new_rust_scheduler n i)\<lparr>live_threads := n - of_nat (Suc k)\<rparr>,
            if n - of_nat (Suc k) = 0 then [Kernel_release_scheduler_id i] else [])"
    using ne
    by (simp only: workers_exit.simps Suc.IH [OF le] release_task_thread_eq Let_def
          split_conv)
       (simp add: new_rust_scheduler_def a del: of_nat_Suc)
  show ?case unfolding w z by simp
qed

lemma not_deregisters_each_thread:
  "\<not> deregisters (each_thread Loop_exit n)"
  "\<not> deregisters (each_thread Loop_kill_all_tasks n)"
  by (auto simp add: deregisters_def each_thread_def)

lemma deregisters_simps:
  "deregisters [] = False"
  "deregisters [Kernel_release_scheduler_id j] = True"
  "deregisters [Loop_create_task w] = False"
  by (simp_all add: deregisters_def)

lemma other_ops:
  "\<not> deregisters (snd (exit_sched s))"
  "\<not> deregisters (snd (release_task s))"
  "\<not> deregisters (snd (kill_all_tasks_sched s))"
  "create_task s = Some r \<Longrightarrow> \<not> deregisters (snd r)"
     apply (simp add: exit_sched_def not_deregisters_each_thread)
    apply (simp add: release_task_def exit_sched_def Let_def not_deregisters_each_thread deregisters_simps)
   apply (simp add: kill_all_tasks_sched_def not_deregisters_each_thread)
  apply (auto simp add: create_task_def Let_def deregisters_simps split: if_splits)
  done

text \<open>
  Claim C5.  Whenever the cursor is below the number of workers \<open>N\<close> (as it is from the
  constructor on, for \<open>N \<ge> 1\<close>), one call of \<open>create_task\<close> adds exactly one to
  \<open>live_tasks\<close>, delegates to the worker at the current cursor, and advances the cursor
  by one, wrapping to 0 at \<open>N\<close>; in \<open>n\<close> calls back to back the \<open>i\<close>-th one (from 0) is
  delegated to worker \<open>(c0 + i) mod N\<close>; and nine spawns on a new scheduler of three
  workers put exactly three tasks on each of the workers 0, 1 and 2.
\<close>

theorem create_task_round_robin:
  assumes "cur_thread s < num_threads s"
  shows "(\<exists>s1. create_task s = Some (s1, [Loop_create_task (cur_thread s)])
            \<and> live_tasks s1 = live_tasks s + 1
            \<and> unat (cur_thread s1) = (unat (cur_thread s) + 1) mod unat (num_threads s)
            \<and> num_threads s1 = num_threads s)
       \<and> (\<exists>s'. spawn_tasks n s =
                  Some (s', map (\<lambda>i. Loop_create_task
                                  (of_nat ((unat (cur_thread s) + i) mod unat (num_threads s))))
                              [0..<n])
            \<and> live_tasks s' = live_tasks s + of_nat n)
       \<and> (\<exists>s9 cs. spawn_tasks 9 (new_rust_scheduler 3 i) = Some (s9, cs)
            \<and> count_list cs (Loop_create_task 0) = 3
            \<and> count_list cs (Loop_create_task 1) = 3
            \<and> count_list cs (Loop_create_task 2) = 3
            \<and> length cs = 9)"
proof (intro conjI)
  show "\<exists>s1. create_task s = Some (s1, [Loop_create_task (cur_thread s)])
            \<and> live_tasks s1 = live_tasks s + 1
            \<and> unat (cur_thread s1) = (unat (cur_thread s) + 1) mod unat (num_threads s)
            \<and> num_threads s1 = num_threads s"
    using create_task_eq [OF assms] unat_next_thread(1) [OF assms] by simp
next
  from spawn_tasks_round_robin [OF assms, of n]
  show "\<exists>s'. spawn_tasks n s =
                  Some (s', map (\<lambda>i. Loop_create_task
                                  (of_nat ((unat (cur_thread s) + i) mod unat (num_threads s))))
                              [0..<n])
            \<and> live_tasks s' = live_tasks s + of_nat n"
    unfolding worker_of_def by blast
next
  let ?s = "new_rust_scheduler 3 i"
  have lt: "cur_thread ?s < num_threads ?s" by (simp add: new_rust_scheduler_def)
  from spawn_tasks_round_robin [OF lt, of 9] obtain s9 where
    sp: "spawn_tasks 9 ?s = Some (s9, map (\<lambda>i. Loop_create_task (worker_of ?s i)) [0..<9])"
    by blast
  have nine: "[0..<9] = [0, 1, 2, 3, 4, 5, 6, 7, 8]" by (simp add: upt_rec)
  have cs: "map (\<lambda>i. Loop_create_task (worker_of ?s i)) [0..<9] =
              [Loop_create_task 0, Loop_create_task 1, Loop_create_task 2,
               Loop_create_task 0, Loop_create_task 1, Loop_create_task 2,
               Loop_create_task 0, Loop_create_task 1, Loop_create_task 2]"
    unfolding nine by (simp add: worker_of_def new_rust_scheduler_def)
  show "\<exists>s9 cs. spawn_tasks 9 ?s = Some (s9, cs)
            \<and> count_list cs (Loop_create_task 0) = 3
            \<and> count_list cs (Loop_create_task 1) = 3
            \<and> count_list cs (Loop_create_task 2) = 3
            \<and> length cs = 9"
    unfolding sp cs by simp
qed

theorem create_task_round_robin_witness:
  "cur_thread (new_rust_scheduler 3 0) < num_threads (new_rust_scheduler 3 0)
   \<and> (\<exists>s'. spawn_tasks 4 (new_rust_scheduler 3 0) =
              Some (s', [Loop_create_task 0, Loop_create_task 1,
                         Loop_create_task 2, Loop_create_task 0])
         \<and> live_tasks s' = 4)"
proof -
  have h: "cur_thread (new_rust_scheduler 3 0) < num_threads (new_rust_scheduler 3 0)"
    by (simp add: new_rust_scheduler_def)
  have four: "[0..<4] = [0, 1, 2, 3]" by (simp add: upt_rec)
  from create_task_round_robin [OF h, of 4 0]
  have "\<exists>s'. spawn_tasks 4 (new_rust_scheduler 3 0) =
                  Some (s', map (\<lambda>i. Loop_create_task
                     (of_nat ((unat (cur_thread (new_rust_scheduler 3 0)) + i)
                                mod unat (num_threads (new_rust_scheduler 3 0)))))
                              [0..<4])
            \<and> live_tasks s' = live_tasks (new_rust_scheduler 3 0) + of_nat 4"
    by blast
  then show ?thesis
    unfolding four using h by (simp add: new_rust_scheduler_def)
qed

text \<open>
  Claim C6.  \<open>release_task_thread\<close> decrements \<open>live_threads\<close> and calls
  \<open>kernel->release_scheduler_id(id)\<close> if and only if the decremented count is 0.  For a
  scheduler constructed with \<open>n \<ge> 1\<close> workers, each of which calls it once when its
  loop has ended, the count after \<open>k \<le> n\<close> such calls is \<open>n - k\<close>; it is 0 after the
  last call only, and the single deregistration is made by that call.  No other
  operation of the scheduler (\<open>create_task\<close>, \<open>release_task\<close>, \<open>exit\<close>,
  \<open>kill_all_tasks\<close>) calls \<open>release_scheduler_id\<close>.
\<close>

theorem release_task_thread_deregisters_once:
  "live_threads (fst (release_task_thread s)) = live_threads s - 1
   \<and> deregisters (snd (release_task_thread s)) = (live_threads (fst (release_task_thread s)) = 0)
   \<and> snd (release_task_thread s) =
        (if live_threads s - 1 = 0 then [Kernel_release_scheduler_id (sched_id s)] else [])
   \<and> (\<forall>k. k \<le> unat n \<longrightarrow>
          live_threads (fst (workers_exit k (new_rust_scheduler n i))) = n - of_nat k
        \<and> (live_threads (fst (workers_exit k (new_rust_scheduler n i))) = 0) = (k = unat n)
        \<and> snd (workers_exit k (new_rust_scheduler n i)) =
            (if 0 < k \<and> k = unat n then [Kernel_release_scheduler_id i] else []))
   \<and> \<not> deregisters (snd (exit_sched s))
   \<and> \<not> deregisters (snd (release_task s))
   \<and> \<not> deregisters (snd (kill_all_tasks_sched s))
   \<and> (\<forall>r. create_task s = Some r \<longrightarrow> \<not> deregisters (snd r))"
proof (intro conjI allI impI)
  show "live_threads (fst (release_task_thread s)) = live_threads s - 1"
    by (simp add: release_task_thread_eq)
  show "deregisters (snd (release_task_thread s)) =
          (live_threads (fst (release_task_thread s)) = 0)"
    by (simp add: release_task_thread_eq deregisters_simps)
  show "snd (release_task_thread s) =
        (if live_threads s - 1 = 0 then [Kernel_release_scheduler_id (sched_id s)] else [])"
    by (simp add: release_task_thread_eq)
next
  fix k assume k: "k \<le> unat n"
  show "live_threads (fst (workers_exit k (new_rust_scheduler n i))) = n - of_nat k"
    by (simp add: workers_exit_eq [OF k])
  show "(live_threads (fst (workers_exit k (new_rust_scheduler n i))) = 0) = (k = unat n)"
    using of_nat_eq_word_iff [OF k] by (simp add: workers_exit_eq [OF k])
  show "snd (workers_exit k (new_rust_scheduler n i)) =
            (if 0 < k \<and> k = unat n then [Kernel_release_scheduler_id i] else [])"
    by (simp add: workers_exit_eq [OF k])
next
  show "\<not> deregisters (snd (exit_sched s))" by (rule other_ops)
  show "\<not> deregisters (snd (release_task s))" by (rule other_ops)
  show "\<not> deregisters (snd (kill_all_tasks_sched s))" by (rule other_ops)
next
  fix r assume "create_task s = Some r"
  then show "\<not> deregisters (snd r)" by (rule other_ops)
qed

theorem release_task_thread_deregisters_once_witness:
  "snd (workers_exit 2 (new_rust_scheduler 3 7)) = []
   \<and> snd (workers_exit 3 (new_rust_scheduler 3 7)) = [Kernel_release_scheduler_id 7]
   \<and> live_threads (fst (workers_exit 3 (new_rust_scheduler 3 7))) = 0
   \<and> create_task (new_rust_scheduler 3 7) \<noteq> None
   \<and> \<not> deregisters (snd (the (create_task (new_rust_scheduler 3 7))))"
proof -
  note t = release_task_thread_deregisters_once [of "new_rust_scheduler 3 7" 3 7]
  have u: "unat (3 :: size_t) = 3" by simp
  have c: "create_task (new_rust_scheduler 3 7) \<noteq> None"
    by (simp add: create_task_def new_rust_scheduler_def Let_def)
  from t have a: "\<forall>k. k \<le> unat (3 :: size_t) \<longrightarrow>
          live_threads (fst (workers_exit k (new_rust_scheduler 3 7))) = 3 - of_nat k
        \<and> (live_threads (fst (workers_exit k (new_rust_scheduler 3 7))) = 0) = (k = unat (3 :: size_t))
        \<and> snd (workers_exit k (new_rust_scheduler 3 7)) =
            (if 0 < k \<and> k = unat (3 :: size_t) then [Kernel_release_scheduler_id 7] else [])"
    by blast
  from t have b: "\<forall>r. create_task (new_rust_scheduler 3 7) = Some r \<longrightarrow> \<not> deregisters (snd r)"
    by blast
  from a [rule_format, of 2] a [rule_format, of 3] b c show ?thesis
    unfolding u by auto
qed

section \<open>Properties of the blocking receive\<close>

lemma port_recv_message:
  assumes "task_heap w self = Some task" "port_heap w port = Some p" "buffer p = m # ms"
  shows "port_recv dptr port self w =
           Inr \<lparr>yield_out = False, killed_out = False,
                world_out = w\<lparr>port_heap := (port_heap w)(port \<mapsto> p\<lparr>buffer := ms\<rparr>),
                               mem := (mem w)(dptr \<mapsto> Data m),
                               lock_trace := lock_trace w @ [Lock port, Unlock port]\<rparr>\<rparr>"
  using assms
  by (simp add: port_recv_def receive_def lock_port_def unlock_port_def Let_def)

lemma port_recv_killed:
  assumes "task_heap w self = Some task" "port_heap w port = Some p" "buffer p = []"
    "killed task"
  shows "port_recv dptr port self w =
           Inr \<lparr>yield_out = False, killed_out = True,
                world_out = w\<lparr>lock_trace := lock_trace w @ [Lock port, Unlock port]\<rparr>\<rparr>"
  using assms
  by (simp add: port_recv_def receive_def lock_port_def unlock_port_def Let_def)

lemma port_recv_block:
  assumes "task_heap w self = Some task" "port_heap w port = Some p" "buffer p = []"
    "\<not> killed task" "state task = Running"
  shows "port_recv dptr port self w =
           Inr \<lparr>yield_out = True, killed_out = False,
                world_out = w\<lparr>task_heap := (task_heap w)
                                 (self \<mapsto> task\<lparr>state := Blocked,
                                     cond := Some (Cond_port port),
                                     cond_name := ''waiting for rendezvous data'',
                                     rendezvous_ptr := Some dptr\<rparr>),
                               running_tasks := remove1 self (running_tasks w),
                               blocked_tasks := blocked_tasks w @ [self],
                               signals := signals w + 1,
                               lock_trace := lock_trace w @ [Lock port, Unlock port]\<rparr>\<rparr>"
  using assms
  by (cases w, cases task)
     (simp add: port_recv_def receive_def lock_port_def unlock_port_def Let_def
        block_def transition_def list_remove_def list_append_def)

text \<open>
  Claim C3, as the code has it.  For a call of \<open>port_recv\<close> by the current task on a
  port: if the buffer is non-empty, one message is popped into \<open>*dptr\<close> and the call
  returns with both output flags false; if the buffer is empty and the task's \<open>killed\<close>
  flag is set, the call releases the port lock and returns with the killed output flag
  true and the yield output flag still false, changing nothing else; otherwise, the task
  being in state running, it stores \<open>dptr\<close> in \<open>rendezvous_ptr\<close>, blocks the task on
  the port with the reason "waiting for rendezvous data" and returns with the yield
  output flag true.  The port lock is taken once and released once in each case.
\<close>

theorem port_recv_cases:
  assumes "task_heap w self = Some task" and "port_heap w port = Some p"
  shows "(\<forall>m ms. buffer p = m # ms \<longrightarrow>
            port_recv dptr port self w =
              Inr \<lparr>yield_out = False, killed_out = False,
                   world_out = w\<lparr>port_heap := (port_heap w)(port \<mapsto> p\<lparr>buffer := ms\<rparr>),
                                  mem := (mem w)(dptr \<mapsto> Data m),
                                  lock_trace := lock_trace w @ [Lock port, Unlock port]\<rparr>\<rparr>)
       \<and> (buffer p = [] \<and> killed task \<longrightarrow>
            port_recv dptr port self w =
              Inr \<lparr>yield_out = False, killed_out = True,
                   world_out = w\<lparr>lock_trace := lock_trace w @ [Lock port, Unlock port]\<rparr>\<rparr>)
       \<and> (buffer p = [] \<and> \<not> killed task \<and> state task = Running \<longrightarrow>
            port_recv dptr port self w =
              Inr \<lparr>yield_out = True, killed_out = False,
                   world_out = w\<lparr>task_heap := (task_heap w)
                                    (self \<mapsto> task\<lparr>state := Blocked,
                                        cond := Some (Cond_port port),
                                        cond_name := ''waiting for rendezvous data'',
                                        rendezvous_ptr := Some dptr\<rparr>),
                                  running_tasks := remove1 self (running_tasks w),
                                  blocked_tasks := blocked_tasks w @ [self],
                                  signals := signals w + 1,
                                  lock_trace := lock_trace w @ [Lock port, Unlock port]\<rparr>\<rparr>)"
  using port_recv_message [OF assms] port_recv_killed [OF assms] port_recv_block [OF assms]
  by blast

theorem port_recv_cases_witness:
  "port_recv 5 1 0 (receiver_world [42, 43 :: nat] False) =
     Inr \<lparr>yield_out = False, killed_out = False,
          world_out = (receiver_world [42, 43 :: nat] False)
             \<lparr>port_heap := [1 \<mapsto> receiver_port [43 :: nat]], mem := [5 \<mapsto> Data 42],
              lock_trace := [Lock 1, Unlock 1]\<rparr>\<rparr>
   \<and> yield_out (projr (port_recv 5 1 0 (receiver_world ([] :: nat list) False)))
   \<and> state (the (task_heap (world_out (projr (port_recv 5 1 0 (receiver_world ([] :: nat list) False)))) 0))
       = Blocked"
proof -
  have t: "task_heap (receiver_world buf kl) 0 = Some (receiver_task kl)"
    for buf :: "nat list" and kl
    by (simp add: receiver_world_def empty_world_def)
  have p: "port_heap (receiver_world buf kl) 1 = Some (receiver_port buf)"
    for buf :: "nat list" and kl
    by (simp add: receiver_world_def empty_world_def)
  have b: "buffer (receiver_port buf) = buf" for buf :: "nat list"
    by (simp add: receiver_port_def)
  have k: "killed (receiver_task kl) = kl" "state (receiver_task kl) = Running" for kl
    by (simp_all add: receiver_task_def empty_task_def)
  from port_recv_cases [OF t [of "[42, 43 :: nat]" False] p [of "[42, 43 :: nat]" False], where dptr = 5] b
  have 1: "port_recv 5 1 0 (receiver_world [42, 43 :: nat] False) =
     Inr \<lparr>yield_out = False, killed_out = False,
          world_out = (receiver_world [42, 43 :: nat] False)
             \<lparr>port_heap := (port_heap (receiver_world [42, 43 :: nat] False))
                               (1 \<mapsto> (receiver_port [42, 43 :: nat])\<lparr>buffer := [43]\<rparr>),
              mem := (mem (receiver_world [42, 43 :: nat] False))(5 \<mapsto> Data 42),
              lock_trace := lock_trace (receiver_world [42, 43 :: nat] False) @ [Lock 1, Unlock 1]\<rparr>\<rparr>"
    by simp
  from port_recv_cases [OF t [of "[] :: nat list" False] p [of "[] :: nat list" False], where dptr = 5] b k
  have 2: "port_recv 5 1 0 (receiver_world ([] :: nat list) False) =
              Inr \<lparr>yield_out = True, killed_out = False,
                   world_out = (receiver_world ([] :: nat list) False)
                      \<lparr>task_heap := (task_heap (receiver_world ([] :: nat list) False))
                                    (0 \<mapsto> (receiver_task False)\<lparr>state := Blocked,
                                        cond := Some (Cond_port 1),
                                        cond_name := ''waiting for rendezvous data'',
                                        rendezvous_ptr := Some 5\<rparr>),
                                  running_tasks := remove1 0 (running_tasks (receiver_world ([] :: nat list) False)),
                                  blocked_tasks := blocked_tasks (receiver_world ([] :: nat list) False) @ [0],
                                  signals := signals (receiver_world ([] :: nat list) False) + 1,
                                  lock_trace := lock_trace (receiver_world ([] :: nat list) False) @ [Lock 1, Unlock 1]\<rparr>\<rparr>"
    by simp
  show ?thesis
    unfolding 1 2
    by (simp add: receiver_world_def empty_world_def receiver_port_def)
qed

text \<open>
  The killed receiver on an empty port: the call returns with the killed flag set and
  the yield flag false.
\<close>

theorem port_recv_killed_no_yield:
  "buffer (the (port_heap (receiver_world ([] :: nat list) True) 1)) = []
   \<and> killed (the (task_heap (receiver_world ([] :: nat list) True) 0))
   \<and> port_recv 5 1 0 (receiver_world ([] :: nat list) True) =
      Inr \<lparr>yield_out = False, killed_out = True,
           world_out = (receiver_world ([] :: nat list) True)\<lparr>lock_trace := [Lock 1, Unlock 1]\<rparr>\<rparr>"
  by (simp add: port_recv_killed [where task = "receiver_task True" and p = "receiver_port ([] :: nat list)"]
        receiver_world_def empty_world_def receiver_task_def receiver_port_def empty_task_def)

section \<open>Properties of kill\_all\_tasks\<close>

lemma kill_loop_step:
  "kill_loop (ts @ [t]) w = (case kill_one t w of Inl e \<Rightarrow> Inl e | Inr w' \<Rightarrow> kill_loop ts w')"
  by (subst kill_loop.simps) (simp add: kill_one_def Let_def split: sum.splits)

lemma kill_loop_Nil: "kill_loop [] w = Inr w"
  by (subst kill_loop.simps) simp

lemma kill_one_props:
  assumes "task_heap w t = Some tk"
  shows "\<exists>w'. kill_one t w = Inr w'
           \<and> dom (task_heap w') = dom (task_heap w)
           \<and> (\<forall>u. u \<noteq> t \<longrightarrow> task_heap w' u = task_heap w u)
           \<and> (\<exists>tk'. task_heap w' t = Some tk' \<and> killed tk' \<and> \<not> supervised tk')
           \<and> newborn_tasks w' = newborn_tasks w
           \<and> dead_tasks w' = dead_tasks w
           \<and> call_trace w' = call_trace w @ [Call_unsupervise t, Call_kill t]"
  using assms
  by (cases "state tk = Blocked")
     (auto simp add: kill_one_def unsupervise_def kill_def wakeup_def transition_def
        list_remove_def list_append_def Let_def)

lemma kill_loop_props:
  assumes "set ts \<subseteq> dom (task_heap w)"
  shows "\<exists>w'. kill_loop ts w = Inr w'
           \<and> dom (task_heap w') = dom (task_heap w)
           \<and> (\<forall>u. u \<notin> set ts \<longrightarrow> task_heap w' u = task_heap w u)
           \<and> (\<forall>u. u \<in> set ts \<or> marked w u \<longrightarrow> marked w' u)
           \<and> newborn_tasks w' = newborn_tasks w
           \<and> dead_tasks w' = dead_tasks w
           \<and> call_trace w' = call_trace w @ kill_calls (rev ts)"
  using assms
proof (induction ts arbitrary: w rule: rev_induct)
  case Nil
  then show ?case by (simp add: kill_loop_Nil kill_calls_def)
next
  case (snoc t ts)
  from snoc.prems obtain tk where tk: "task_heap w t = Some tk" by auto
  from kill_one_props [OF tk] obtain w1 where
    k: "kill_one t w = Inr w1" and d: "dom (task_heap w1) = dom (task_heap w)"
    and o: "\<forall>u. u \<noteq> t \<longrightarrow> task_heap w1 u = task_heap w u"
    and m: "marked w1 t"
    and n: "newborn_tasks w1 = newborn_tasks w" and dd: "dead_tasks w1 = dead_tasks w"
    and c: "call_trace w1 = call_trace w @ [Call_unsupervise t, Call_kill t]"
    unfolding marked_def by blast
  have sub: "set ts \<subseteq> dom (task_heap w1)" using snoc.prems d by auto
  from snoc.IH [OF sub] obtain w' where
    l: "kill_loop ts w1 = Inr w'" and d': "dom (task_heap w') = dom (task_heap w1)"
    and o': "\<forall>u. u \<notin> set ts \<longrightarrow> task_heap w' u = task_heap w1 u"
    and m': "\<forall>u. u \<in> set ts \<or> marked w1 u \<longrightarrow> marked w' u"
    and n': "newborn_tasks w' = newborn_tasks w1" and dd': "dead_tasks w' = dead_tasks w1"
    and c': "call_trace w' = call_trace w1 @ kill_calls (rev ts)"
    by blast
  have keep: "marked w u \<Longrightarrow> marked w1 u" for u
    using o m by (cases "u = t") (auto simp add: marked_def)
  show ?case
    apply (rule exI [of _ w'])
    apply (simp add: kill_loop_step k l d d' n n' dd dd' c c' kill_calls_def)
    using o o' m m' keep apply auto
    done
qed

text \<open>
  Claim C10.  \<open>kill_all_tasks\<close> on a worker whose running and blocked lists hold
  valid task pointers: the calls made are, for each task of the snapshot (the running
  list followed by the blocked list, taken from the back), \<open>unsupervise()\<close> and then
  \<open>kill()\<close>, and no other; every task of the snapshot ends unsupervised and killed;
  every task outside the two lists, in particular a newborn or a dead one, is left as
  it was, and the newborn and dead lists are unchanged.
\<close>

theorem kill_all_tasks_snapshot:
  assumes "set (running_tasks w) \<union> set (blocked_tasks w) \<subseteq> dom (task_heap w)"
  shows "\<exists>w'. kill_all_tasks w = Inr w'
           \<and> call_trace w' =
               call_trace w @
               concat (map (\<lambda>t. [Call_unsupervise t, Call_kill t])
                           (rev (running_tasks w @ blocked_tasks w)))
           \<and> (\<forall>u. u \<notin> set (running_tasks w) \<union> set (blocked_tasks w)
                  \<longrightarrow> task_heap w' u = task_heap w u)
           \<and> (\<forall>u \<in> set (running_tasks w) \<union> set (blocked_tasks w). marked w' u)
           \<and> newborn_tasks w' = newborn_tasks w
           \<and> dead_tasks w' = dead_tasks w"
proof -
  have sub: "set (running_tasks w @ blocked_tasks w) \<subseteq> dom (task_heap w)"
    using assms by simp
  from kill_loop_props [OF sub] obtain w' where
    l: "kill_loop (running_tasks w @ blocked_tasks w) w = Inr w'"
    and o: "\<forall>u. u \<notin> set (running_tasks w @ blocked_tasks w) \<longrightarrow> task_heap w' u = task_heap w u"
    and m: "\<forall>u. u \<in> set (running_tasks w @ blocked_tasks w) \<or> marked w u \<longrightarrow> marked w' u"
    and n: "newborn_tasks w' = newborn_tasks w" and d: "dead_tasks w' = dead_tasks w"
    and c: "call_trace w' = call_trace w @ kill_calls (rev (running_tasks w @ blocked_tasks w))"
    by blast
  show ?thesis
    apply (rule exI [of _ w'])
    using l o m n d c unfolding kill_calls_def kill_all_tasks_def Let_def
    apply auto
    done
qed

theorem kill_all_tasks_snapshot_witness:
  "set (running_tasks four_task_world) \<union> set (blocked_tasks four_task_world)
     \<subseteq> dom (task_heap four_task_world)
   \<and> call_trace (projr (kill_all_tasks four_task_world)) =
       [Call_unsupervise 1, Call_kill 1, Call_unsupervise 0, Call_kill 0]
   \<and> task_heap (projr (kill_all_tasks four_task_world)) 2 = task_heap four_task_world 2
   \<and> task_heap (projr (kill_all_tasks four_task_world)) 3 = task_heap four_task_world 3
   \<and> marked (projr (kill_all_tasks four_task_world)) 0
   \<and> marked (projr (kill_all_tasks four_task_world)) 1
   \<and> newborn_tasks (projr (kill_all_tasks four_task_world)) = [2]
   \<and> dead_tasks (projr (kill_all_tasks four_task_world)) = [3]"
proof -
  have h: "set (running_tasks four_task_world) \<union> set (blocked_tasks four_task_world)
             \<subseteq> dom (task_heap four_task_world)"
    by (simp add: four_task_world_def empty_world_def)
  have r: "running_tasks four_task_world = [0]" "blocked_tasks four_task_world = [1]"
    "newborn_tasks four_task_world = [2]" "dead_tasks four_task_world = [3]"
    "call_trace four_task_world = []"
    by (simp_all add: four_task_world_def empty_world_def)
  from kill_all_tasks_snapshot [OF h] obtain w' where
    k: "kill_all_tasks four_task_world = Inr w'"
    and c: "call_trace w' =
               call_trace four_task_world @
               concat (map (\<lambda>t. [Call_unsupervise t, Call_kill t])
                           (rev (running_tasks four_task_world @ blocked_tasks four_task_world)))"
    and o: "\<forall>u. u \<notin> set (running_tasks four_task_world) \<union> set (blocked_tasks four_task_world)
                  \<longrightarrow> task_heap w' u = task_heap four_task_world u"
    and m: "\<forall>u \<in> set (running_tasks four_task_world) \<union> set (blocked_tasks four_task_world).
               marked w' u"
    and n: "newborn_tasks w' = newborn_tasks four_task_world"
    and d: "dead_tasks w' = dead_tasks four_task_world"
    by blast
  show ?thesis
    using h c o m n d unfolding k r by simp
qed

section \<open>Properties of the port selector\<close>

lemma unat_of_nat_le:
  fixes n :: size_t
  assumes "i \<le> unat n"
  shows "unat (of_nat i :: size_t) = i"
proof -
  have "unat n < 2 ^ 64" using unsigned_less [of n] by simp
  with assms have "i < 2 ^ 64" by arith
  then show ?thesis by (simp add: unat_of_nat)
qed

lemma of_nat_less_iff_le:
  fixes n :: size_t
  assumes "i \<le> unat n"
  shows "((of_nat i :: size_t) < n) = (i < unat n)"
  by (simp add: word_less_nat_alt unat_of_nat_le [OF assms])

lemma rot_index_bound:
  fixes n :: size_t
  assumes "n \<noteq> 0" "unat n \<le> length prts"
  shows "unat ((x + j) mod n) < length prts"
proof -
  have "0 < unat n" using assms(1) by (simp add: unat_gt_0)
  then have "unat ((x + j) mod n) < unat n" by (simp add: unat_mod)
  with assms(2) show ?thesis by arith
qed

lemma has_message_lock [simp]:
  "has_message (lock_port p w) q = has_message w q"
  by (simp add: has_message_def lock_port_def)

lemma select_scan_none:
  fixes n :: size_t
  assumes n: "n \<noteq> 0" and len: "unat n \<le> length prts"
    and i: "i \<le> unat n"
    and dom: "\<forall>x. i \<le> x \<and> x < unat n \<longrightarrow> rotated prts n j x \<in> dom (port_heap w)"
    and none: "\<forall>x. i \<le> x \<and> x < unat n \<longrightarrow> \<not> has_message w (rotated prts n j x)"
  shows "select_scan prts n j dptr (of_nat i) lk w =
           Inr (False, lk + of_nat (unat n - i),
                w\<lparr>lock_trace := lock_trace w @ map (\<lambda>x. Lock (rotated prts n j x)) [i..<unat n]\<rparr>)"
  using i dom none
proof (induction "unat n - i" arbitrary: i lk w)
  case 0
  then have "i = unat n" by arith
  then have "\<not> (of_nat i :: size_t) < n" by (simp add: word_less_nat_alt)
  then show ?case using \<open>i = unat n\<close>
    by (subst select_scan.simps) simp
next
  case (Suc d)
  then have lt: "i < unat n" and le: "Suc i \<le> unat n" and d: "d = unat n - Suc i" by arith+
  have wlt: "(of_nat i :: size_t) < n" using lt Suc.prems(1) by (simp add: of_nat_less_iff_le)
  let ?port = "rotated prts n j i"
  from Suc.prems(2) lt obtain p where p: "port_heap w ?port = Some p" by force
  from Suc.prems(3) lt p have e: "buffer p = []" by (auto simp add: has_message_def)
  have dom': "\<forall>x. Suc i \<le> x \<and> x < unat n \<longrightarrow> rotated prts n j x \<in> dom (port_heap (lock_port ?port w))"
    using Suc.prems(2) by (simp add: lock_port_def)
  have none': "\<forall>x. Suc i \<le> x \<and> x < unat n \<longrightarrow> \<not> has_message (lock_port ?port w) (rotated prts n j x)"
    using Suc.prems(3) by simp
  note IH = Suc.hyps(1) [OF d le dom' none', of "lk + 1"]
  have upt: "[i..<unat n] = i # [Suc i..<unat n]" using lt by (simp add: upt_conv_Cons)
  have cnt: "lk + 1 + of_nat (unat n - Suc i) = lk + (of_nat (unat n - i) :: size_t)"
  proof -
    have "unat n - i = Suc (unat n - Suc i)" using lt by arith
    then show ?thesis by simp
  qed
  have s1: "of_nat i + 1 = (of_nat (Suc i) :: size_t)" by simp
  show ?case
    apply (subst select_scan.simps)
    apply (simp only: wlt if_True Let_def rot_index_bound [OF n len])
    apply (simp only: rotated_def [symmetric] p option.case e list.size s1 IH cnt upt)
    apply (simp add: lock_port_def)
    done
qed


lemma select_scan_found:
  fixes n :: size_t
  assumes n: "n \<noteq> 0" and len: "unat n \<le> length prts"
    and i: "i \<le> m" and m: "m < unat n"
    and dom: "\<forall>x. i \<le> x \<and> x \<le> m \<longrightarrow> rotated prts n j x \<in> dom (port_heap w)"
    and none: "\<forall>x. i \<le> x \<and> x < m \<longrightarrow> \<not> has_message w (rotated prts n j x)"
    and found: "has_message w (rotated prts n j m)"
  shows "select_scan prts n j dptr (of_nat i) lk w =
           Inr (True, lk + of_nat (Suc m - i),
                w\<lparr>lock_trace := lock_trace w @ map (\<lambda>x. Lock (rotated prts n j x)) [i..<Suc m],
                  mem := (mem w)(dptr \<mapsto> Port_ptr (rotated prts n j m))\<rparr>)"
  using i dom none found
proof (induction "m - i" arbitrary: i lk w)
  case 0
  then have im: "i = m" by arith
  have wlt: "(of_nat i :: size_t) < n" using m im by (simp add: of_nat_less_iff_le)
  let ?port = "rotated prts n j i"
  from "0.prems"(4) im obtain p where p: "port_heap w ?port = Some p" and b: "buffer p \<noteq> []"
    by (auto simp add: has_message_def split: option.splits)
  have b': "0 < length (buffer p)" using b by simp
  show ?case
    apply (subst select_scan.simps)
    apply (simp only: wlt if_True Let_def rot_index_bound [OF n len])
    apply (simp only: rotated_def [symmetric] p option.case b' if_True)
    apply (simp add: lock_port_def im)
    done
next
  case (Suc d)
  then have lt: "i < m" and le: "Suc i \<le> m" and d: "d = m - Suc i" by arith+
  have wlt: "(of_nat i :: size_t) < n" using lt m by (simp add: of_nat_less_iff_le)
  let ?port = "rotated prts n j i"
  from Suc.prems(2) lt obtain p where p: "port_heap w ?port = Some p" by force
  from Suc.prems(3) lt p have e: "buffer p = []" by (auto simp add: has_message_def)
  have dom': "\<forall>x. Suc i \<le> x \<and> x \<le> m \<longrightarrow> rotated prts n j x \<in> dom (port_heap (lock_port ?port w))"
    using Suc.prems(2) by (simp add: lock_port_def)
  have none': "\<forall>x. Suc i \<le> x \<and> x < m \<longrightarrow> \<not> has_message (lock_port ?port w) (rotated prts n j x)"
    using Suc.prems(3) by simp
  have found': "has_message (lock_port ?port w) (rotated prts n j m)"
    using Suc.prems(4) by simp
  note IH = Suc.hyps(1) [OF d le dom' none' found', of "lk + 1"]
  have upt: "[i..<Suc m] = i # [Suc i..<Suc m]" using lt by (simp add: upt_conv_Cons)
  have cnt: "lk + 1 + of_nat (Suc m - Suc i) = lk + (of_nat (Suc m - i) :: size_t)"
  proof -
    have "Suc m - i = Suc (Suc m - Suc i)" using lt by arith
    then show ?thesis by simp
  qed
  have s1: "of_nat i + 1 = (of_nat (Suc i) :: size_t)" by simp
  show ?case
    apply (subst select_scan.simps)
    apply (simp only: wlt if_True Let_def rot_index_bound [OF n len])
    apply (simp only: rotated_def [symmetric] p option.case e list.size s1 IH cnt upt)
    apply (simp add: lock_port_def)
    done
qed

lemma select_unlock_eq:
  fixes n :: size_t
  assumes n: "n \<noteq> 0" and len: "unat n \<le> length prts"
    and i: "i \<le> c" and c: "c \<le> unat n"
  shows "select_unlock prts n j (of_nat i) (of_nat c) w =
           Inr (w\<lparr>lock_trace := lock_trace w @ map (\<lambda>x. Unlock (rotated prts n j x)) [i..<c]\<rparr>)"
  using i
proof (induction "c - i" arbitrary: i w)
  case 0
  then have ic: "i = c" by arith
  show ?case
    by (subst select_unlock.simps) (simp add: ic)
next
  case (Suc d)
  then have lt: "i < c" and le: "Suc i \<le> c" and d: "d = c - Suc i" by arith+
  have ui: "unat (of_nat i :: size_t) = i" using lt c by (intro unat_of_nat_le [of _ n]) arith
  have uc: "unat (of_nat c :: size_t) = c" by (rule unat_of_nat_le [OF c])
  have wlt: "(of_nat i :: size_t) < of_nat c" using lt by (simp add: word_less_nat_alt ui uc)
  note IH = Suc.hyps(1) [OF d le]
  have upt: "[i..<c] = i # [Suc i..<c]" using lt by (simp add: upt_conv_Cons)
  have s1: "of_nat i + 1 = (of_nat (Suc i) :: size_t)" by simp
  show ?case
    apply (subst select_unlock.simps)
    apply (simp only: wlt if_True Let_def rot_index_bound [OF n len])
    apply (simp only: rotated_def [symmetric] s1 IH upt)
    apply (simp add: unlock_port_def)
    done
qed


lemma rotated_no_overflow:
  fixes n j :: size_t
  assumes "unat j + unat n \<le> 2 ^ 64" "i < unat n"
  shows "rotated prts n j i = prts ! ((i + unat j) mod unat n)"
proof -
  have ui: "unat (of_nat i :: size_t) = i"
    using assms(2) by (intro unat_of_nat_le [of _ n]) arith
  have "i + unat j < 2 ^ 64" using assms by arith
  then have "unat (of_nat i + j) = i + unat j"
    by (simp add: unat_word_ariths ui)
  then show ?thesis by (simp add: rotated_def unat_mod)
qed

lemma select_found:
  fixes n :: size_t
  assumes sel: "selector_heap w this = Some sel" and idle: "ports sel = None" "n_ports sel = 0"
    and n: "n \<noteq> 0" and len: "unat n \<le> length prts"
    and dom: "\<forall>x<unat n. rotated prts n j x \<in> dom (port_heap w)"
    and m: "m < unat n"
    and none: "\<forall>x<m. \<not> has_message w (rotated prts n j x)"
    and found: "has_message w (rotated prts n j m)"
  shows "select this task dptr prts n j w =
           Inr (False,
                w\<lparr>mem := (mem w)(dptr \<mapsto> Port_ptr (rotated prts n j m)),
                  lock_trace := lock_trace w
                     @ map (\<lambda>x. Lock (rotated prts n j x)) [0..<Suc m]
                     @ map (\<lambda>x. Unlock (rotated prts n j x)) [0..<Suc m]\<rparr>)"
proof -
  have dom': "\<forall>x. 0 \<le> x \<and> x \<le> m \<longrightarrow> rotated prts n j x \<in> dom (port_heap w)"
    using dom m by auto
  have none': "\<forall>x. 0 \<le> x \<and> x < m \<longrightarrow> \<not> has_message w (rotated prts n j x)"
    using none by auto
  have sc: "select_scan prts n j dptr 0 0 w =
           Inr (True, of_nat (Suc m),
                w\<lparr>lock_trace := lock_trace w @ map (\<lambda>x. Lock (rotated prts n j x)) [0..<Suc m],
                  mem := (mem w)(dptr \<mapsto> Port_ptr (rotated prts n j m))\<rparr>)"
    using select_scan_found [OF n len _ m dom' none' found, where dptr = dptr and lk = 0] by simp
  have c: "Suc m \<le> unat n" using m by arith
  have un: "select_unlock prts n j 0 (of_nat (Suc m)) w' =
           Inr (w'\<lparr>lock_trace := lock_trace w' @ map (\<lambda>x. Unlock (rotated prts n j x)) [0..<Suc m]\<rparr>)"
    for w' :: "'a world"
    using select_unlock_eq [OF n len _ c, where i = 0 and j = j and w = w'] by simp
  show ?thesis
    unfolding select_def
    apply (simp only: sel option.case idle n sc sum.case prod.case un Let_def)
    apply (cases w)
    apply simp
    done
qed

lemma select_block:
  fixes n :: size_t
  assumes sel: "selector_heap w this = Some sel" and idle: "ports sel = None" "n_ports sel = 0"
    and n: "n \<noteq> 0" and len: "unat n \<le> length prts"
    and dom: "\<forall>x<unat n. rotated prts n j x \<in> dom (port_heap w)"
    and none: "\<forall>x<unat n. \<not> has_message w (rotated prts n j x)"
    and t: "task_heap w task = Some t" "rendezvous_ptr t = None" "state t = Running"
  shows "select this task dptr prts n j w =
           Inr (True,
                w\<lparr>selector_heap := (selector_heap w)
                     (this \<mapsto> sel\<lparr>ports := Some prts, n_ports := n\<rparr>),
                  task_heap := (task_heap w)
                     (task \<mapsto> t\<lparr>state := Blocked, cond := Some (Cond_selector this),
                                  cond_name := ''waiting for select rendezvous'',
                                  rendezvous_ptr := Some dptr\<rparr>),
                  running_tasks := remove1 task (running_tasks w),
                  blocked_tasks := blocked_tasks w @ [task],
                  signals := signals w + 1,
                  lock_trace := lock_trace w
                     @ map (\<lambda>x. Lock (rotated prts n j x)) [0..<unat n]
                     @ map (\<lambda>x. Unlock (rotated prts n j x)) [0..<unat n]\<rparr>)"
proof -
  have dom': "\<forall>x. 0 \<le> x \<and> x < unat n \<longrightarrow> rotated prts n j x \<in> dom (port_heap w)"
    using dom by auto
  have none': "\<forall>x. 0 \<le> x \<and> x < unat n \<longrightarrow> \<not> has_message w (rotated prts n j x)"
    using none by auto
  have sc: "select_scan prts n j dptr 0 0 w =
           Inr (False, of_nat (unat n),
                w\<lparr>lock_trace := lock_trace w @ map (\<lambda>x. Lock (rotated prts n j x)) [0..<unat n]\<rparr>)"
    using select_scan_none [OF n len _ dom' none', where dptr = dptr and lk = 0] by simp
  have un: "select_unlock prts n j 0 (of_nat (unat n)) w' =
           Inr (w'\<lparr>lock_trace := lock_trace w' @ map (\<lambda>x. Unlock (rotated prts n j x)) [0..<unat n]\<rparr>)"
    for w' :: "'a world"
    using select_unlock_eq [OF n len, where i = 0 and c = "unat n" and j = j and w = w'] by simp
  show ?thesis
    unfolding select_def
    apply (simp only: sel option.case idle n sc sum.case prod.case Let_def)
    apply (cases w, cases t)
    using t
    apply (simp add: block_def transition_def list_remove_def list_append_def Let_def un
             del: of_nat_unat)
    done
qed

text \<open>
  Claim C1.  A call \<open>select(task, dptr, ports, n)\<close> with \<open>n \<ge> 1\<close> on a selector
  with no published port set, the array holding \<open>n\<close> valid port pointers, and \<open>j\<close>
  the start index drawn from the PRNG.  The ports are scanned in the rotated order
  \<open>k = (i + j) mod n\<close>, each scanned port's lock being taken.  If \<open>m\<close> is the first turn
  whose port has a non-empty buffer, that port's reference is written to \<open>*dptr\<close>, the
  yield flag is false, and exactly the \<open>m + 1\<close> locks taken are released in the same
  rotated order.  If no port has a message (the task being running with an empty
  rendezvous slot), \<open>(ports, n)\<close> is published in the selector, \<open>rendezvous_ptr\<close> is
  set to \<open>dptr\<close>, the task is blocked on the selector with the reason "waiting for
  select rendezvous", the yield flag is true, and all \<open>n\<close> locks are released in the
  rotated order.  Where \<open>i + j\<close> does not overflow, \<open>k\<close> is the remainder of the
  natural-number sum.
\<close>

theorem select_rotated_scan:
  fixes n j :: size_t
  assumes "selector_heap w this = Some sel" and "ports sel = None" and "n_ports sel = 0"
    and "n \<noteq> 0" and "unat n \<le> length prts"
    and "\<forall>x<unat n. rotated prts n j x \<in> dom (port_heap w)"
  shows "(\<forall>m. m < unat n \<and> (\<forall>x<m. \<not> has_message w (rotated prts n j x))
              \<and> has_message w (rotated prts n j m) \<longrightarrow>
            select this task dptr prts n j w =
              Inr (False,
                   w\<lparr>mem := (mem w)(dptr \<mapsto> Port_ptr (rotated prts n j m)),
                     lock_trace := lock_trace w
                        @ map (\<lambda>x. Lock (rotated prts n j x)) [0..<Suc m]
                        @ map (\<lambda>x. Unlock (rotated prts n j x)) [0..<Suc m]\<rparr>))
       \<and> ((\<forall>x<unat n. \<not> has_message w (rotated prts n j x))
            \<and> task_heap w task = Some t \<and> rendezvous_ptr t = None \<and> state t = Running \<longrightarrow>
            select this task dptr prts n j w =
              Inr (True,
                   w\<lparr>selector_heap := (selector_heap w)
                        (this \<mapsto> sel\<lparr>ports := Some prts, n_ports := n\<rparr>),
                     task_heap := (task_heap w)
                        (task \<mapsto> t\<lparr>state := Blocked, cond := Some (Cond_selector this),
                                     cond_name := ''waiting for select rendezvous'',
                                     rendezvous_ptr := Some dptr\<rparr>),
                     running_tasks := remove1 task (running_tasks w),
                     blocked_tasks := blocked_tasks w @ [task],
                     signals := signals w + 1,
                     lock_trace := lock_trace w
                        @ map (\<lambda>x. Lock (rotated prts n j x)) [0..<unat n]
                        @ map (\<lambda>x. Unlock (rotated prts n j x)) [0..<unat n]\<rparr>))
       \<and> (unat j + unat n \<le> 2 ^ 64 \<longrightarrow>
            (\<forall>i<unat n. rotated prts n j i = prts ! ((i + unat j) mod unat n)))"
proof (intro conjI allI impI)
  fix m
  assume "m < unat n \<and> (\<forall>x<m. \<not> has_message w (rotated prts n j x))
              \<and> has_message w (rotated prts n j m)"
  then show "select this task dptr prts n j w =
              Inr (False,
                   w\<lparr>mem := (mem w)(dptr \<mapsto> Port_ptr (rotated prts n j m)),
                     lock_trace := lock_trace w
                        @ map (\<lambda>x. Lock (rotated prts n j x)) [0..<Suc m]
                        @ map (\<lambda>x. Unlock (rotated prts n j x)) [0..<Suc m]\<rparr>)"
    using select_found [OF assms] by blast
next
  assume "(\<forall>x<unat n. \<not> has_message w (rotated prts n j x))
            \<and> task_heap w task = Some t \<and> rendezvous_ptr t = None \<and> state t = Running"
  then show "select this task dptr prts n j w =
              Inr (True,
                   w\<lparr>selector_heap := (selector_heap w)
                        (this \<mapsto> sel\<lparr>ports := Some prts, n_ports := n\<rparr>),
                     task_heap := (task_heap w)
                        (task \<mapsto> t\<lparr>state := Blocked, cond := Some (Cond_selector this),
                                     cond_name := ''waiting for select rendezvous'',
                                     rendezvous_ptr := Some dptr\<rparr>),
                     running_tasks := remove1 task (running_tasks w),
                     blocked_tasks := blocked_tasks w @ [task],
                     signals := signals w + 1,
                     lock_trace := lock_trace w
                        @ map (\<lambda>x. Lock (rotated prts n j x)) [0..<unat n]
                        @ map (\<lambda>x. Unlock (rotated prts n j x)) [0..<unat n]\<rparr>)"
    using select_block [OF assms] by blast
next
  fix i
  assume "unat j + unat n \<le> 2 ^ 64" and "i < unat n"
  then show "rotated prts n j i = prts ! ((i + unat j) mod unat n)"
    by (rule rotated_no_overflow)
qed

theorem select_rotated_scan_witness:
  "select 9 0 50 [4, 5, 6] 3 5 (select_world [] [7] []) =
     Inr (False, (select_world [] [7] [])
            \<lparr>mem := [50 \<mapsto> Port_ptr 5],
             lock_trace := [Lock 6, Lock 4, Lock 5, Unlock 6, Unlock 4, Unlock 5]\<rparr>)
   \<and> fst (projr (select 9 0 50 [4, 5, 6] 3 5 (select_world [] [] [])))
   \<and> lock_trace (snd (projr (select 9 0 50 [4, 5, 6] 3 5 (select_world [] [] [])))) =
        [Lock 6, Lock 4, Lock 5, Unlock 6, Unlock 4, Unlock 5]
   \<and> selector_heap (snd (projr (select 9 0 50 [4, 5, 6] 3 5 (select_world [] [] [])))) 9 =
        Some \<lparr>ports = Some [4, 5, 6], n_ports = 3\<rparr>
   \<and> blocked_on 0 (Cond_selector 9)
        (snd (projr (select 9 0 50 [4, 5, 6] 3 5 (select_world [] [] []))))"
proof -
  let ?sel = "\<lparr>ports = None, n_ports = 0\<rparr>"
  have r: "rotated [4, 5, 6] 3 5 0 = 6" "rotated [4, 5, 6] 3 5 1 = 4"
    "rotated [4, 5, 6] 3 5 (Suc 0) = 4" "rotated [4, 5, 6] 3 5 2 = 5"
    by (simp_all add: rotated_def)
  have three: "x < 3 \<Longrightarrow> x = 0 \<or> x = 1 \<or> x = 2" for x :: nat by arith
  have two: "x < 2 \<Longrightarrow> x = 0 \<or> x = 1" for x :: nat by arith
  have u: "unat (3 :: size_t) = 3" by simp
  have s: "selector_heap (select_world b1 b2 b3) 9 = Some ?sel" for b1 b2 b3
    by (simp add: select_world_def empty_world_def)
  have d: "\<forall>x<unat (3 :: size_t). rotated [4, 5, 6] 3 5 x \<in> dom (port_heap (select_world b1 b2 b3))"
    for b1 b2 b3
    unfolding u by (auto dest!: three simp add: r select_world_def empty_world_def)
  have hm: "has_message (select_world b1 b2 b3) 4 = (b1 \<noteq> [])"
    "has_message (select_world b1 b2 b3) 5 = (b2 \<noteq> [])"
    "has_message (select_world b1 b2 b3) 6 = (b3 \<noteq> [])" for b1 b2 b3
    by (simp_all add: has_message_def select_world_def empty_world_def)
  have up: "[0..<Suc 2] = [0, 1, 2]" "[0..<3] = [0, 1, 2]" by (simp_all add: upt_rec)
  have i1: "ports ?sel = None" and i2: "n_ports ?sel = 0" by simp_all
  have n0: "(3 :: size_t) \<noteq> 0" by simp
  have len: "unat (3 :: size_t) \<le> length [4, 5, 6 :: nat]" by simp
  note thm1 = select_rotated_scan [OF s [of "[]" "[7]" "[]"] i1 i2 n0 len d,
      where dptr = 50 and task = 0 and t = select_task]
  note c1 = thm1 [THEN conjunct1, rule_format, of 2]
  have a1: "select 9 0 50 [4, 5, 6] 3 5 (select_world [] [7] []) =
     Inr (False, (select_world [] [7] [])
            \<lparr>mem := (mem (select_world [] [7] []))(50 \<mapsto> Port_ptr (rotated [4, 5, 6] 3 5 2)),
             lock_trace := lock_trace (select_world [] [7] [])
                        @ map (\<lambda>x. Lock (rotated [4, 5, 6] 3 5 x)) [0..<Suc 2]
                        @ map (\<lambda>x. Unlock (rotated [4, 5, 6] 3 5 x)) [0..<Suc 2]\<rparr>)"
    by (rule c1) (auto dest!: two simp add: r hm)
  note thm2 = select_rotated_scan [OF s [of "[]" "[]" "[]"] i1 i2 n0 len d,
      where dptr = 50 and task = 0 and t = select_task]
  note c2 = thm2 [THEN conjunct2, THEN conjunct1, rule_format]
  have a2: "select 9 0 50 [4, 5, 6] 3 5 (select_world [] [] []) =
              Inr (True,
                   (select_world [] [] [])\<lparr>selector_heap := (selector_heap (select_world [] [] []))
                        (9 \<mapsto> ?sel\<lparr>ports := Some [4, 5, 6], n_ports := 3\<rparr>),
                     task_heap := (task_heap (select_world [] [] []))
                        (0 \<mapsto> select_task
                                   \<lparr>state := Blocked, cond := Some (Cond_selector 9),
                                     cond_name := ''waiting for select rendezvous'',
                                     rendezvous_ptr := Some 50\<rparr>),
                     running_tasks := remove1 0 (running_tasks (select_world [] [] [])),
                     blocked_tasks := blocked_tasks (select_world [] [] []) @ [0],
                     signals := signals (select_world [] [] []) + 1,
                     lock_trace := lock_trace (select_world [] [] [])
                        @ map (\<lambda>x. Lock (rotated [4, 5, 6] 3 5 x)) [0..<unat (3 :: size_t)]
                        @ map (\<lambda>x. Unlock (rotated [4, 5, 6] 3 5 x)) [0..<unat (3 :: size_t)]\<rparr>)"
  proof (rule c2, intro conjI)
    show "\<forall>x<unat (3 :: size_t). \<not> has_message (select_world [] [] []) (rotated [4, 5, 6] 3 5 x)"
      unfolding u by (auto dest!: three simp add: r hm)
    show "task_heap (select_world [] [] []) 0 = Some select_task"
      by (simp add: select_world_def empty_world_def)
    show "rendezvous_ptr select_task = None" "state select_task = Running"
      by (simp_all add: select_task_def empty_task_def)
  qed
  show ?thesis
    unfolding a1 a2 u up
    by (simp add: r select_world_def empty_world_def blocked_on_def)
qed

section \<open>Properties of the select rendezvous\<close>

lemma msg_scan_zero: "msg_scan port ps 0 i = Inr False"
  by (subst msg_scan.simps) simp

lemma msg_scan_eq:
  fixes n :: size_t
  assumes len: "unat n \<le> length arr" and i: "i \<le> unat n"
  shows "msg_scan port (Some arr) n (of_nat i) =
           Inr (\<exists>x. i \<le> x \<and> x < unat n \<and> arr ! x = port)"
  using i
proof (induction "unat n - i" arbitrary: i)
  case 0
  then have "i = unat n" by arith
  then have "\<not> (of_nat i :: size_t) < n" by (simp add: word_less_nat_alt)
  then show ?case using \<open>i = unat n\<close>
    by (subst msg_scan.simps) simp
next
  case (Suc d)
  then have lt: "i < unat n" and le: "Suc i \<le> unat n" and d: "d = unat n - Suc i" by arith+
  have wlt: "(of_nat i :: size_t) < n" using lt Suc.prems(1) by (simp add: of_nat_less_iff_le)
  have ui: "unat (of_nat i :: size_t) = i" using Suc.prems(1) by (rule unat_of_nat_le)
  have b: "i < length arr" using lt len by arith
  note IH = Suc.hyps(1) [OF d le]
  have s1: "of_nat i + 1 = (of_nat (Suc i) :: size_t)" by simp
  have ex: "(\<exists>x. i \<le> x \<and> x < unat n \<and> arr ! x = port) =
            (arr ! i = port \<or> (\<exists>x. Suc i \<le> x \<and> x < unat n \<and> arr ! x = port))"
    using lt by (metis Suc_leI le_eq_less_or_eq Suc_leD order_refl)
  show ?case
    apply (subst msg_scan.simps)
    apply (simp only: wlt if_True option.case ui b s1 IH ex)
    apply auto
    done
qed

lemma msg_scan_member:
  fixes n :: size_t
  assumes len: "unat n \<le> length arr"
  shows "msg_scan port (Some arr) n 0 = Inr (port \<in> set (take (unat n) arr))"
proof -
  have "(\<exists>x. 0 \<le> x \<and> x < unat n \<and> arr ! x = port) = (port \<in> set (take (unat n) arr))"
    using len by (auto simp add: in_set_conv_nth)
  with msg_scan_eq [OF len, of 0 port] show ?thesis by simp
qed

lemma port_lock_held_rendezvous [simp]:
  "port_lock_held r (w\<lparr>lock_trace := lock_trace w @ [Lock_rendezvous s]\<rparr>) = port_lock_held r w"
  "port_lock_held r (w\<lparr>lock_trace := lock_trace w @ [Lock_rendezvous s, Unlock_rendezvous s]\<rparr>)
     = port_lock_held r w"
  by (simp_all add: port_lock_held_def)

lemma msg_sent_on_lost:
  assumes "selector_heap w this = Some sel" "port_heap w port = Some p"
    "\<not> port_lock_held port w" "\<not> blocked_on (port_task p) (Cond_selector this) w"
  shows "msg_sent_on this port w =
           Inr (w\<lparr>lock_trace := lock_trace w @ [Lock_rendezvous this, Unlock_rendezvous this]\<rparr>)"
  using assms
  by (simp add: msg_sent_on_def Let_def blocked_on_def unlock_rendezvous_def)

lemma msg_sent_on_won:
  assumes sel: "selector_heap w this = Some sel" and arr: "ports sel = Some arr"
    and len: "unat (n_ports sel) \<le> length arr"
    and mem: "port \<in> set (take (unat (n_ports sel)) arr)"
    and p: "port_heap w port = Some p" and held: "\<not> port_lock_held port w"
    and t: "task_heap w (port_task p) = Some t" "state t = Blocked"
      "cond t = Some (Cond_selector this)" "rendezvous_ptr t = Some a"
  shows "msg_sent_on this port w =
           Inr (w\<lparr>selector_heap := (selector_heap w)(this \<mapsto> sel\<lparr>ports := None, n_ports := 0\<rparr>),
                  mem := (mem w)(a \<mapsto> Port_ptr port),
                  task_heap := (task_heap w)
                    (port_task p \<mapsto> t\<lparr>state := Running, cond := None, cond_name := ''none'',
                                        rendezvous_ptr := None\<rparr>),
                  blocked_tasks := remove1 (port_task p) (blocked_tasks w),
                  running_tasks := running_tasks w @ [port_task p],
                  signals := signals w + 1,
                  lock_trace := lock_trace w @ [Lock_rendezvous this, Unlock_rendezvous this]\<rparr>)"
proof -
  have sc: "msg_scan port (ports sel) (n_ports sel) 0 = Inr True"
    using msg_scan_member [OF len, of port] mem arr by simp
  show ?thesis
    using sel p held t
    apply (cases w, cases t)
    apply (simp add: msg_sent_on_def Let_def blocked_on_def sc unlock_rendezvous_def
             wakeup_def transition_def list_remove_def list_append_def)
    done
qed

lemma msgs_sent_on_lost:
  assumes "selector_heap v this = Some s'"
    and "\<forall>r \<in> set qs. \<exists>pr. port_heap v r = Some pr
            \<and> \<not> blocked_on (port_task pr) (Cond_selector this) v \<and> \<not> port_lock_held r v"
  shows "msgs_sent_on this qs v =
           Inr (v\<lparr>lock_trace := lock_trace v @ rendezvous_events this (length qs)\<rparr>)"
  using assms
proof (induction qs arbitrary: v)
  case Nil
  then show ?case by (simp add: rendezvous_events_def)
next
  case (Cons q qs)
  from Cons.prems(2) obtain pq where pq: "port_heap v q = Some pq"
    and nb: "\<not> blocked_on (port_task pq) (Cond_selector this) v" and nh: "\<not> port_lock_held q v"
    by auto
  let ?v1 = "v\<lparr>lock_trace := lock_trace v @ [Lock_rendezvous this, Unlock_rendezvous this]\<rparr>"
  have st: "msg_sent_on this q v = Inr ?v1"
    by (rule msg_sent_on_lost [OF Cons.prems(1) pq nh nb])
  have s1: "selector_heap ?v1 this = Some s'" using Cons.prems(1) by simp
  have r1: "\<forall>r \<in> set qs. \<exists>pr. port_heap ?v1 r = Some pr
            \<and> \<not> blocked_on (port_task pr) (Cond_selector this) ?v1 \<and> \<not> port_lock_held r ?v1"
    using Cons.prems(2) by (simp add: blocked_on_def)
  show ?case
    by (simp add: st Cons.IH [OF s1 r1] rendezvous_events_def)
qed


text \<open>
  Claim C2.  A task is blocked on its selector with the port set published and its
  rendezvous slot pointing at the cell \<open>a\<close>.  Calls of \<open>msg_sent_on\<close> on that selector run
  one at a time under its rendezvous lock.  The first call, for a port of the published
  set, clears the published set, writes the port reference into the cell, clears the
  slot pointer and wakes the task, which is then no longer blocked on the selector.
  Every later call for a port of that task, however many there are, changes nothing
  but the trace of the rendezvous lock: it writes nothing and wakes nobody.  A further
  \<open>select\<close> on a selector whose port set is published fails its entry check.
\<close>

theorem msg_sent_on_single_winner:
  assumes "selector_heap w this = Some sel" and "ports sel = Some arr"
    and "unat (n_ports sel) \<le> length arr"
    and "port \<in> set (take (unat (n_ports sel)) arr)"
    and "port_heap w port = Some p" and "\<not> port_lock_held port w"
    and "task_heap w (port_task p) = Some t" and "state t = Blocked"
    and "cond t = Some (Cond_selector this)" and "rendezvous_ptr t = Some a"
    and "\<forall>r \<in> set qs. \<exists>pr. port_heap w r = Some pr \<and> port_task pr = port_task p
            \<and> \<not> port_lock_held r w"
  shows "\<exists>w1. msg_sent_on this port w = Inr w1
           \<and> selector_heap w1 = (selector_heap w)(this \<mapsto> sel\<lparr>ports := None, n_ports := 0\<rparr>)
           \<and> mem w1 = (mem w)(a \<mapsto> Port_ptr port)
           \<and> task_heap w1 = (task_heap w)
                (port_task p \<mapsto> t\<lparr>state := Running, cond := None, cond_name := ''none'',
                                    rendezvous_ptr := None\<rparr>)
           \<and> blocked_tasks w1 = remove1 (port_task p) (blocked_tasks w)
           \<and> running_tasks w1 = running_tasks w @ [port_task p]
           \<and> signals w1 = signals w + 1
           \<and> port_heap w1 = port_heap w
           \<and> lock_trace w1 = lock_trace w @ [Lock_rendezvous this, Unlock_rendezvous this]
           \<and> \<not> blocked_on (port_task p) (Cond_selector this) w1
           \<and> msgs_sent_on this (port # qs) w =
               Inr (w1\<lparr>lock_trace := lock_trace w1 @ rendezvous_events this (length qs)\<rparr>)
           \<and> select this task dptr prts n j w = Inl (Assert_failed ''this->ports == NULL'')"
proof -
  let ?w1 = "w\<lparr>selector_heap := (selector_heap w)(this \<mapsto> sel\<lparr>ports := None, n_ports := 0\<rparr>),
                  mem := (mem w)(a \<mapsto> Port_ptr port),
                  task_heap := (task_heap w)
                    (port_task p \<mapsto> t\<lparr>state := Running, cond := None, cond_name := ''none'',
                                        rendezvous_ptr := None\<rparr>),
                  blocked_tasks := remove1 (port_task p) (blocked_tasks w),
                  running_tasks := running_tasks w @ [port_task p],
                  signals := signals w + 1,
                  lock_trace := lock_trace w @ [Lock_rendezvous this, Unlock_rendezvous this]\<rparr>"
  have won: "msg_sent_on this port w = Inr ?w1"
    by (rule msg_sent_on_won [OF assms(1-10)])
  have nb: "\<not> blocked_on (port_task p) (Cond_selector this) ?w1"
    by (simp add: blocked_on_def)
  have s1: "selector_heap ?w1 this = Some (sel\<lparr>ports := None, n_ports := 0\<rparr>)" by simp
  have later: "\<forall>r \<in> set qs. \<exists>pr. port_heap ?w1 r = Some pr
            \<and> \<not> blocked_on (port_task pr) (Cond_selector this) ?w1 \<and> \<not> port_lock_held r ?w1"
  proof
    fix r assume "r \<in> set qs"
    with assms(11) obtain pr where pr: "port_heap w r = Some pr" "port_task pr = port_task p"
      "\<not> port_lock_held r w" by blast
    have "\<not> port_lock_held r ?w1" using pr(3) by (simp add: port_lock_held_def)
    moreover have "\<not> blocked_on (port_task pr) (Cond_selector this) ?w1"
      using nb pr(2) by simp
    ultimately show "\<exists>pr. port_heap ?w1 r = Some pr
            \<and> \<not> blocked_on (port_task pr) (Cond_selector this) ?w1 \<and> \<not> port_lock_held r ?w1"
      using pr(1) by simp
  qed
  have seq: "msgs_sent_on this (port # qs) w =
               Inr (?w1\<lparr>lock_trace := lock_trace ?w1 @ rendezvous_events this (length qs)\<rparr>)"
    using msgs_sent_on_lost [OF s1 later] by (simp add: won)
  have sl: "select this task dptr prts n j w = Inl (Assert_failed ''this->ports == NULL'')"
    using assms(1,2) by (simp add: select_def)
  show ?thesis
    apply (rule exI [of _ ?w1])
    apply (intro conjI)
               apply (rule won)
              apply simp
             apply simp
            apply simp
           apply simp
          apply simp
         apply simp
        apply simp
       apply simp
      apply (rule nb)
     apply (rule seq)
    apply (rule sl)
    done
qed

theorem msg_sent_on_single_winner_witness:
  "mem (projr (msgs_sent_on 9 [5, 6, 5] blocked_select_world)) 50 = Some (Port_ptr 5)
   \<and> signals (projr (msgs_sent_on 9 [5, 6, 5] blocked_select_world)) = 1
   \<and> running_tasks (projr (msgs_sent_on 9 [5, 6, 5] blocked_select_world)) = [0]
   \<and> blocked_tasks (projr (msgs_sent_on 9 [5, 6, 5] blocked_select_world)) = []
   \<and> selector_heap (projr (msgs_sent_on 9 [5, 6, 5] blocked_select_world)) 9
        = Some \<lparr>ports = None, n_ports = 0\<rparr>
   \<and> lock_trace (projr (msgs_sent_on 9 [5, 6, 5] blocked_select_world))
        = [Lock_rendezvous 9, Unlock_rendezvous 9, Lock_rendezvous 9, Unlock_rendezvous 9,
           Lock_rendezvous 9, Unlock_rendezvous 9]
   \<and> select 9 0 50 [4, 5, 6] 3 5 blocked_select_world
        = Inl (Assert_failed ''this->ports == NULL'')"
proof -
  let ?w = blocked_select_world
  let ?sel = "\<lparr>ports = Some [4, 5, 6], n_ports = 3\<rparr>"
  let ?p = "\<lparr>port_id = 5, port_task = 0, buffer = ([] :: nat list), port_ref_count = 1\<rparr>"
  have h1: "selector_heap ?w 9 = Some ?sel"
    by (simp add: blocked_select_world_def)
  have h2: "ports ?sel = Some [4, 5, 6]" by simp
  have h3: "unat (n_ports ?sel) \<le> length [4, 5, 6 :: nat]" by simp
  have h4: "5 \<in> set (take (unat (n_ports ?sel)) [4, 5, 6 :: nat])" by simp
  have h5: "port_heap ?w 5 = Some ?p"
    by (simp add: blocked_select_world_def select_world_def empty_world_def)
  have lt: "lock_trace ?w = []"
    by (simp add: blocked_select_world_def select_world_def empty_world_def)
  have h6: "\<not> port_lock_held 5 ?w" by (simp add: port_lock_held_def lt)
  have h7: "task_heap ?w (port_task ?p) = Some blocked_select_task"
    by (simp add: blocked_select_world_def)
  have h8: "state blocked_select_task = Blocked"
    and h9: "cond blocked_select_task = Some (Cond_selector 9)"
    and h10: "rendezvous_ptr blocked_select_task = Some 50"
    by (simp_all add: blocked_select_task_def)
  have h11: "\<forall>r \<in> set [6, 5]. \<exists>pr. port_heap ?w r = Some pr \<and> port_task pr = port_task ?p
            \<and> \<not> port_lock_held r ?w"
    by (simp add: port_lock_held_def lt blocked_select_world_def select_world_def
          empty_world_def)
  from msg_sent_on_single_winner [OF h1 h2 h3 h4 h5 h6 h7 h8 h9 h10 h11,
      where task = 0 and dptr = 50 and prts = "[4, 5, 6]" and n = 3 and j = 5]
  obtain w1 where
    m: "mem w1 = (mem ?w)(50 \<mapsto> Port_ptr 5)"
    and sh: "selector_heap w1 = (selector_heap ?w)(9 \<mapsto> ?sel\<lparr>ports := None, n_ports := 0\<rparr>)"
    and b: "blocked_tasks w1 = remove1 (port_task ?p) (blocked_tasks ?w)"
    and r: "running_tasks w1 = running_tasks ?w @ [port_task ?p]"
    and s: "signals w1 = signals ?w + 1"
    and l: "lock_trace w1 = lock_trace ?w @ [Lock_rendezvous 9, Unlock_rendezvous 9]"
    and q: "msgs_sent_on 9 [5, 6, 5] ?w =
               Inr (w1\<lparr>lock_trace := lock_trace w1 @ rendezvous_events 9 (length [6, 5 :: nat])\<rparr>)"
    and a: "select 9 0 50 [4, 5, 6] 3 5 ?w = Inl (Assert_failed ''this->ports == NULL'')"
    by blast
  have re: "rendezvous_events 9 (length [6, 5 :: nat]) =
      [Lock_rendezvous 9, Unlock_rendezvous 9, Lock_rendezvous 9, Unlock_rendezvous 9]"
    by (simp add: rendezvous_events_def numeral_2_eq_2)
  show ?thesis
    unfolding q a re
    by (simp add: m sh b r s l lt)
       (simp add: blocked_select_world_def select_world_def empty_world_def)
qed

section \<open>Properties of channel sends\<close>

lemma transition_counts:
  "transition task src dst c nm v = Inr v' \<Longrightarrow> counts v' = counts v"
  by (cases src; cases dst)
     (auto simp add: transition_def counts_def list_remove_def list_append_def Let_def fun_eq_iff
        split: option.splits if_splits)

lemma wakeup_counts:
  "wakeup task c v = Inr v' \<Longrightarrow> counts v' = counts v"
  by (auto simp add: wakeup_def split: option.splits if_splits dest: transition_counts)

lemma counts_lock_trace [simp]: "counts (v\<lparr>lock_trace := l\<rparr>) = counts v"
  by (simp add: counts_def)

lemma counts_unlock_rendezvous [simp]: "counts (unlock_rendezvous s v) = counts v"
  by (simp add: unlock_rendezvous_def)

lemma counts_lock_port [simp]: "counts (lock_port s v) = counts v"
  "counts (unlock_port s v) = counts v"
  by (simp_all add: lock_port_def unlock_port_def)

lemma msg_sent_on_counts:
  assumes "msg_sent_on s port v = Inr v'"
  shows "counts v' = counts v"
proof -
  have c: "counts
        (v\<lparr>lock_trace := l, selector_heap := sh, mem := m,
            task_heap := (task_heap v)(tr \<mapsto> t\<lparr>rendezvous_ptr := None\<rparr>)\<rparr>) = counts v"
    if "task_heap v tr = Some t" for l sh m tr t
    using that by (auto simp add: counts_def fun_eq_iff)
  from assms show ?thesis
    by (auto simp add: msg_sent_on_def Let_def c
          split: option.splits if_splits sum.splits bool.splits dest!: wakeup_counts)
qed

lemma counts_buffer:
  "port_heap v pr = Some p \<Longrightarrow>
     counts (v\<lparr>port_heap := (port_heap v)(pr \<mapsto> p\<lparr>buffer := bf\<rparr>)\<rparr>) = counts v"
  by (auto simp add: counts_def fun_eq_iff)

lemma counts_rendezvous_ptr:
  "task_heap v tr = Some t \<Longrightarrow>
     counts (v\<lparr>task_heap := (task_heap v)(tr \<mapsto> t\<lparr>rendezvous_ptr := r\<rparr>)\<rparr>) = counts v"
  by (auto simp add: counts_def fun_eq_iff)

lemma counts_mem [simp]: "counts (v\<lparr>mem := m\<rparr>) = counts v"
  by (simp add: counts_def)

lemma send_counts:
  assumes "send port d v = Inr v'"
  shows "counts v' = counts v"
proof -
  obtain p where p: "port_heap v port = Some p"
    using assms by (auto simp add: send_def split: option.splits)
  let ?w1 = "lock_port port v"
  show ?thesis
  proof (cases "task_heap v (port_task p)")
    case None
    with assms p show ?thesis
      by (auto simp add: send_def Let_def lock_port_def unlock_port_def)
  next
    case (Some t)
    show ?thesis
    proof (cases "blocked_on (port_task p) (Cond_port port) ?w1 \<and> rendezvous_ptr t \<noteq> None")
      case True
      let ?w2 = "?w1\<lparr>mem := (mem ?w1)(the (rendezvous_ptr t) \<mapsto> Data d),
                     task_heap := (task_heap ?w1)
                       (port_task p \<mapsto> t\<lparr>rendezvous_ptr := None\<rparr>)\<rparr>"
      from assms p Some True obtain w3 where
        w: "wakeup (port_task p) (Some (Cond_port port)) ?w2 = Inr w3"
        and v': "v' = unlock_port port w3"
        by (auto simp add: send_def Let_def lock_port_def split: sum.splits)
      have "task_heap ?w1 (port_task p) = Some t" using Some by (simp add: lock_port_def)
      then have "counts ?w2 = counts ?w1"
        using counts_rendezvous_ptr [of "?w1\<lparr>mem := (mem ?w1)(the (rendezvous_ptr t) \<mapsto> Data d)\<rparr>"
            "port_task p" t None]
        by simp
      with wakeup_counts [OF w] v' show ?thesis by simp
    next
      case False
      let ?w2 = "unlock_port port (?w1\<lparr>port_heap := (port_heap ?w1)
                                     (port \<mapsto> p\<lparr>buffer := buffer p @ [d]\<rparr>)\<rparr>)"
      have "port_heap ?w1 port = Some p" using p by (simp add: lock_port_def)
      from counts_buffer [OF this] have c2: "counts ?w2 = counts v" by simp
      from assms p Some False have
        "v' = ?w2 \<or> (\<exists>s. msg_sent_on s port ?w2 = Inr v')"
        by (auto simp add: send_def Let_def lock_port_def
              split: option.splits rust_cond.splits if_splits)
      then show ?thesis using c2 by (auto dest: msg_sent_on_counts)
    qed
  qed
qed


lemma chan_miss_task:
  assumes "task_table w tid = None"
  shows "chan_id_send tid pid d w = Inr (False, w)"
  using assms by (simp add: chan_id_send_def get_task_by_id_def)

lemma chan_miss_port:
  assumes "task_table w tid = Some tr" "task_heap w tr = Some tk" "ref_count tk \<noteq> 0"
    "port_table tk pid = None"
  shows "chan_id_send tid pid d w = Inr (False, w)"
proof -
  have "(task_heap w)(tr \<mapsto> tk) = task_heap w" using assms(2) by (rule map_upd_triv)
  then show ?thesis
    using assms
    by (simp add: chan_id_send_def get_task_by_id_def get_port_by_id_def deref_task_def Let_def)
qed

lemma chan_lookups:
  assumes "task_table w tid = Some tr" "task_heap w tr = Some tk"
    "port_table tk pid = Some pr" "port_heap w pr = Some p"
  shows "chan_id_send tid pid d w =
           (case send pr d (lookups_done tr tk pr p w) of
              Inl e \<Rightarrow> Inl e
            | Inr w3 \<Rightarrow>
                (case deref_port pr (w3\<lparr>lock_trace := lock_trace w3 @ [Lock_task tr]\<rparr>) of
                   Inl e \<Rightarrow> Inl e
                 | Inr w5 \<Rightarrow>
                     (case deref_task tr (w5\<lparr>lock_trace := lock_trace w5 @ [Unlock_task tr]\<rparr>) of
                        Inl e \<Rightarrow> Inl e
                      | Inr w7 \<Rightarrow> Inr (True, w7))))"
  using assms
  by (simp add: chan_id_send_def get_task_by_id_def get_port_by_id_def lookups_done_def Let_def
        split: sum.splits)

lemma chan_sent:
  assumes tt: "task_table w tid = Some tr" and th: "task_heap w tr = Some tk"
    and pt: "port_table tk pid = Some pr" and ph: "port_heap w pr = Some p"
    and rc: "ref_count tk \<noteq> 0" and prc: "port_ref_count p \<noteq> 0"
    and snd: "send pr d (lookups_done tr tk pr p w) = Inr w3"
  shows "\<exists>t3 p3. task_heap w3 tr = Some t3 \<and> port_heap w3 pr = Some p3
           \<and> ref_count t3 = ref_count tk + 1 \<and> port_ref_count p3 = port_ref_count p + 1
           \<and> chan_id_send tid pid d w =
               Inr (True,
                    w3\<lparr>lock_trace := lock_trace w3 @ [Lock_task tr, Unlock_task tr],
                       port_heap := (port_heap w3)(pr \<mapsto> p3\<lparr>port_ref_count := port_ref_count p\<rparr>),
                       task_heap := (task_heap w3)(tr \<mapsto> t3\<lparr>ref_count := ref_count tk\<rparr>)\<rparr>)"
proof -
  let ?w2 = "lookups_done tr tk pr p w"
  have c: "counts w3 = counts ?w2" by (rule send_counts [OF snd])
  have "map_option (\<lambda>t. (ref_count t, task_id t, port_table t)) (task_heap w3 tr)
          = map_option (\<lambda>t. (ref_count t, task_id t, port_table t)) (task_heap ?w2 tr)"
    using c by (simp add: counts_def fun_eq_iff)
  then obtain t3 where t3: "task_heap w3 tr = Some t3" "ref_count t3 = ref_count tk + 1"
    by (auto simp add: lookups_done_def)
  have "map_option (\<lambda>p. (port_ref_count p, port_task p)) (port_heap w3 pr)
          = map_option (\<lambda>p. (port_ref_count p, port_task p)) (port_heap ?w2 pr)"
    using c by (simp add: counts_def fun_eq_iff)
  then obtain p3 where p3: "port_heap w3 pr = Some p3" "port_ref_count p3 = port_ref_count p + 1"
    by (auto simp add: lookups_done_def)
  have "chan_id_send tid pid d w =
               Inr (True,
                    w3\<lparr>lock_trace := lock_trace w3 @ [Lock_task tr, Unlock_task tr],
                       port_heap := (port_heap w3)(pr \<mapsto> p3\<lparr>port_ref_count := port_ref_count p\<rparr>),
                       task_heap := (task_heap w3)(tr \<mapsto> t3\<lparr>ref_count := ref_count tk\<rparr>)\<rparr>)"
    unfolding chan_lookups [OF tt th pt ph] snd
    using t3 p3 rc prc
    by (cases w3) (simp add: deref_port_def deref_task_def Let_def)
  with t3 p3 show ?thesis by blast
qed

lemma send_append:
  assumes "port_heap v pr = Some p" "task_heap v (port_task p) = Some t" "state t \<noteq> Blocked"
  shows "send pr d v =
           Inr (v\<lparr>port_heap := (port_heap v)(pr \<mapsto> p\<lparr>buffer := buffer p @ [d]\<rparr>),
                  lock_trace := lock_trace v @ [Lock pr, Unlock pr]\<rparr>)"
  using assms
  by (cases v)
     (auto simp add: send_def Let_def lock_port_def unlock_port_def blocked_on_def
        split: option.splits rust_cond.splits)

lemma chan_sent_append:
  assumes tt: "task_table w tid = Some tr" and th: "task_heap w tr = Some tk"
    and pt: "port_table tk pid = Some pr" and ph: "port_heap w pr = Some p"
    and rc: "ref_count tk \<noteq> 0" and prc: "port_ref_count p \<noteq> 0"
    and own: "port_task p = tr" and st: "state tk \<noteq> Blocked"
  shows "chan_id_send tid pid d w =
           Inr (True,
                w\<lparr>port_heap := (port_heap w)(pr \<mapsto> p\<lparr>buffer := buffer p @ [d]\<rparr>),
                  lock_trace := lock_trace w @ [Lock pr, Unlock pr, Lock_task tr, Unlock_task tr]\<rparr>)"
proof -
  let ?w2 = "lookups_done tr tk pr p w"
  let ?p2 = "p\<lparr>port_ref_count := port_ref_count p + 1\<rparr>"
  let ?t2 = "tk\<lparr>ref_count := ref_count tk + 1\<rparr>"
  have a: "port_heap ?w2 pr = Some ?p2" by (simp add: lookups_done_def)
  have b: "task_heap ?w2 (port_task ?p2) = Some ?t2" using own by (simp add: lookups_done_def)
  have c: "state ?t2 \<noteq> Blocked" using st by simp
  note s = send_append [OF a b c, of d]
  have m1: "(task_heap w)(tr \<mapsto> tk) = task_heap w" using th by (rule map_upd_triv)
  show ?thesis
    unfolding chan_lookups [OF tt th pt ph] s
    using rc prc m1
    by (cases w, cases p, cases tk)
       (simp add: deref_port_def deref_task_def Let_def lookups_done_def)
qed

lemma chan_true_only:
  assumes "chan_id_send tid pid d w = Inr (True, w')"
  shows "\<exists>tr tk pr p. task_table w tid = Some tr \<and> task_heap w tr = Some tk
           \<and> port_table tk pid = Some pr \<and> port_heap w pr = Some p"
  using assms
  by (auto simp add: chan_id_send_def get_task_by_id_def get_port_by_id_def Let_def
        split: option.splits sum.splits)


lemma chan_false_ports:
  assumes "chan_id_send tid pid d w = Inr (False, w')"
  shows "port_heap w' = port_heap w \<and> mem w' = mem w"
  using assms
  by (auto simp add: chan_id_send_def get_task_by_id_def get_port_by_id_def deref_task_def
        thread_release_task_def Let_def
        split: option.splits sum.splits if_splits)

lemma uv_send_chan_id_send:
  "uv_send chan d w = map_sum id snd (chan_id_send (chan_task chan) (chan_port chan) d w)"
  by (simp add: uv_send_def chan_id_send_def Let_def split: sum.splits option.splits prod.splits)

text \<open>
  Claim C8.  \<open>chan_id_send\<close> returns false and leaves the runtime exactly as it was when
  the target task id is not registered, and also when the task is found (with a
  non-zero reference count) but has no port of the target id; neither case is an error.
  Whenever it returns false, no port and no destination cell has changed.  It returns
  true only if both lookups hit.  When both hit (the counts of the task and
  the port being non-zero) and the \<open>send\<close> on the resolved port returns, the call
  returns true and both reference counts are back at the values they had before the
  lookups; for a receiver that is not blocked the message is appended to the resolved
  port's buffer and nothing else changes but the trace of the locks.
\<close>

theorem chan_id_send_stale:
  "(task_table w tid = None \<longrightarrow> chan_id_send tid pid d w = Inr (False, w))
   \<and> (\<forall>tr tk. task_table w tid = Some tr \<and> task_heap w tr = Some tk \<and> ref_count tk \<noteq> 0
          \<and> port_table tk pid = None \<longrightarrow>
        chan_id_send tid pid d w = Inr (False, w))
   \<and> (\<forall>w'. chan_id_send tid pid d w = Inr (False, w') \<longrightarrow>
        port_heap w' = port_heap w \<and> mem w' = mem w)
   \<and> (\<forall>w'. chan_id_send tid pid d w = Inr (True, w') \<longrightarrow>
        (\<exists>tr tk pr p. task_table w tid = Some tr \<and> task_heap w tr = Some tk
           \<and> port_table tk pid = Some pr \<and> port_heap w pr = Some p))
   \<and> (\<forall>tr tk pr p w3. task_table w tid = Some tr \<and> task_heap w tr = Some tk
          \<and> port_table tk pid = Some pr \<and> port_heap w pr = Some p
          \<and> ref_count tk \<noteq> 0 \<and> port_ref_count p \<noteq> 0
          \<and> send pr d (lookups_done tr tk pr p w) = Inr w3 \<longrightarrow>
        (\<exists>t3 p3. task_heap w3 tr = Some t3 \<and> port_heap w3 pr = Some p3
           \<and> ref_count t3 = ref_count tk + 1 \<and> port_ref_count p3 = port_ref_count p + 1
           \<and> chan_id_send tid pid d w =
               Inr (True,
                    w3\<lparr>lock_trace := lock_trace w3 @ [Lock_task tr, Unlock_task tr],
                       port_heap := (port_heap w3)(pr \<mapsto> p3\<lparr>port_ref_count := port_ref_count p\<rparr>),
                       task_heap := (task_heap w3)(tr \<mapsto> t3\<lparr>ref_count := ref_count tk\<rparr>)\<rparr>)))
   \<and> (\<forall>tr tk pr p. task_table w tid = Some tr \<and> task_heap w tr = Some tk
          \<and> port_table tk pid = Some pr \<and> port_heap w pr = Some p
          \<and> ref_count tk \<noteq> 0 \<and> port_ref_count p \<noteq> 0
          \<and> port_task p = tr \<and> state tk \<noteq> Blocked \<longrightarrow>
        chan_id_send tid pid d w =
           Inr (True,
                w\<lparr>port_heap := (port_heap w)(pr \<mapsto> p\<lparr>buffer := buffer p @ [d]\<rparr>),
                  lock_trace := lock_trace w @ [Lock pr, Unlock pr, Lock_task tr, Unlock_task tr]\<rparr>))"
proof (intro conjI allI impI)
  assume "task_table w tid = None"
  then show "chan_id_send tid pid d w = Inr (False, w)" by (rule chan_miss_task)
next
  fix tr tk
  assume "task_table w tid = Some tr \<and> task_heap w tr = Some tk \<and> ref_count tk \<noteq> 0
          \<and> port_table tk pid = None"
  then show "chan_id_send tid pid d w = Inr (False, w)"
    using chan_miss_port [of w tid tr tk pid d] by blast
next
  fix w'
  assume a: "chan_id_send tid pid d w = Inr (False, w')"
  from chan_false_ports [OF a] show "port_heap w' = port_heap w" by simp
  from chan_false_ports [OF a] show "mem w' = mem w" by simp
next
  fix w'
  assume "chan_id_send tid pid d w = Inr (True, w')"
  then show "\<exists>tr tk pr p. task_table w tid = Some tr \<and> task_heap w tr = Some tk
           \<and> port_table tk pid = Some pr \<and> port_heap w pr = Some p"
    by (rule chan_true_only)
next
  fix tr tk pr p w3
  assume "task_table w tid = Some tr \<and> task_heap w tr = Some tk
          \<and> port_table tk pid = Some pr \<and> port_heap w pr = Some p
          \<and> ref_count tk \<noteq> 0 \<and> port_ref_count p \<noteq> 0
          \<and> send pr d (lookups_done tr tk pr p w) = Inr w3"
  then show "\<exists>t3 p3. task_heap w3 tr = Some t3 \<and> port_heap w3 pr = Some p3
           \<and> ref_count t3 = ref_count tk + 1 \<and> port_ref_count p3 = port_ref_count p + 1
           \<and> chan_id_send tid pid d w =
               Inr (True,
                    w3\<lparr>lock_trace := lock_trace w3 @ [Lock_task tr, Unlock_task tr],
                       port_heap := (port_heap w3)(pr \<mapsto> p3\<lparr>port_ref_count := port_ref_count p\<rparr>),
                       task_heap := (task_heap w3)(tr \<mapsto> t3\<lparr>ref_count := ref_count tk\<rparr>)\<rparr>)"
    using chan_sent [of w tid tr tk pid pr p d w3] by blast
next
  fix tr tk pr p
  assume "task_table w tid = Some tr \<and> task_heap w tr = Some tk
          \<and> port_table tk pid = Some pr \<and> port_heap w pr = Some p
          \<and> ref_count tk \<noteq> 0 \<and> port_ref_count p \<noteq> 0
          \<and> port_task p = tr \<and> state tk \<noteq> Blocked"
  then show "chan_id_send tid pid d w =
           Inr (True,
                w\<lparr>port_heap := (port_heap w)(pr \<mapsto> p\<lparr>buffer := buffer p @ [d]\<rparr>),
                  lock_trace := lock_trace w @ [Lock pr, Unlock pr, Lock_task tr, Unlock_task tr]\<rparr>)"
    using chan_sent_append [of w tid tr tk pid pr p d] by blast
qed

theorem chan_id_send_stale_witness:
  "chan_id_send 7 0 (9 :: nat) (receiver_world [8] False) = Inr (False, receiver_world [8] False)
   \<and> chan_id_send 0 3 (9 :: nat) (receiver_world [8] False) = Inr (False, receiver_world [8] False)
   \<and> chan_id_send 0 0 (9 :: nat) (receiver_world [8] False) =
       Inr (True, (receiver_world [8] False)
                    \<lparr>port_heap := [1 \<mapsto> receiver_port [8, 9]],
                     lock_trace := [Lock 1, Unlock 1, Lock_task 0, Unlock_task 0]\<rparr>)"
proof -
  let ?w = "receiver_world [8 :: nat] False"
  have tt: "task_table ?w 7 = None" "task_table ?w 0 = Some 0"
    by (simp_all add: receiver_world_def empty_world_def)
  have th: "task_heap ?w 0 = Some (receiver_task False)"
    by (simp add: receiver_world_def empty_world_def)
  have ph: "port_heap ?w 1 = Some (receiver_port [8])"
    by (simp add: receiver_world_def empty_world_def)
  have tk: "ref_count (receiver_task False) \<noteq> 0" "port_table (receiver_task False) 3 = None"
    "port_table (receiver_task False) 0 = Some 1" "state (receiver_task False) \<noteq> Blocked"
    by (simp_all add: receiver_task_def empty_task_def)
  have pk: "port_ref_count (receiver_port [8 :: nat]) \<noteq> 0" "port_task (receiver_port [8 :: nat]) = 0"
    by (simp_all add: receiver_port_def)
  note a = chan_id_send_stale [of ?w 7 0 9, THEN conjunct1, rule_format, OF tt(1)]
  note b = chan_id_send_stale [of ?w 0 3 9, THEN conjunct2, THEN conjunct1, rule_format,
      of 0 "receiver_task False"]
  note c = chan_id_send_stale [of ?w 0 0 9, THEN conjunct2, THEN conjunct2, THEN conjunct2,
      THEN conjunct2, THEN conjunct2, rule_format, of 0 "receiver_task False" 1 "receiver_port [8]"]
  have b': "chan_id_send 0 3 9 ?w = Inr (False, ?w)"
    by (rule b) (rule conjI tt th tk)+
  have c': "chan_id_send 0 0 9 ?w =
           Inr (True,
                ?w\<lparr>port_heap := (port_heap ?w)(1 \<mapsto> (receiver_port [8])\<lparr>buffer := buffer (receiver_port [8]) @ [9]\<rparr>),
                  lock_trace := lock_trace ?w @ [Lock 1, Unlock 1, Lock_task 0, Unlock_task 0]\<rparr>)"
    by (rule c) (rule conjI tt th ph tk pk)+
  show ?thesis
    unfolding a b' c'
    by (simp add: receiver_world_def empty_world_def receiver_port_def)
qed

text \<open>
  Claim C9 as the code has it: the message that \<open>on_write\<close> sends for a completed
  write carries \<open>timer_tag\<close>, which is not \<open>wrote_tag\<close>, with the \<open>wrote_val\<close> member
  of the union set; here for the write of connection 7 requested on the channel of
  task 0, port 0.
\<close>

theorem on_write_sends_timer_tag:
  "on_write \<lparr>wd_cd = 7, wd_buf = 8, wd_len = 3, wd_chan = \<lparr>chan_task = 0, chan_port = 0\<rparr>\<rparr>
      (receiver_world [] False) =
     Inr ((receiver_world [] False)
            \<lparr>port_heap := [1 \<mapsto> receiver_port [\<lparr>tag = timer_tag, val = Wrote_val 7\<rparr>]],
             lock_trace := [Lock 1, Unlock 1, Lock_task 0, Unlock_task 0]\<rparr>)
   \<and> timer_tag \<noteq> wrote_tag
   \<and> on_connect_msg 7 = \<lparr>tag = connected_tag, val = Connected_val 7\<rparr>
   \<and> on_read_msg \<lparr>rd_cd = 7, rd_chan = \<lparr>chan_task = 0, chan_port = 0\<rparr>\<rparr> 3 8
        = \<lparr>tag = read_tag, val = Read_val 7 8 3\<rparr>"
proof -
  let ?w = "receiver_world ([] :: iomsg list) False"
  let ?m = "\<lparr>tag = timer_tag, val = Wrote_val 7\<rparr>"
  have tt: "task_table ?w 0 = Some 0"
    by (simp_all add: receiver_world_def empty_world_def)
  have th: "task_heap ?w 0 = Some (receiver_task False)"
    by (simp add: receiver_world_def empty_world_def)
  have ph: "port_heap ?w 1 = Some (receiver_port [])"
    by (simp add: receiver_world_def empty_world_def)
  have tk: "ref_count (receiver_task False) \<noteq> 0"
    "port_table (receiver_task False) 0 = Some 1" "state (receiver_task False) \<noteq> Blocked"
    by (simp_all add: receiver_task_def empty_task_def)
  have pk: "port_ref_count (receiver_port ([] :: iomsg list)) \<noteq> 0"
    "port_task (receiver_port ([] :: iomsg list)) = 0"
    by (simp_all add: receiver_port_def)
  have c: "chan_id_send 0 0 ?m ?w =
           Inr (True,
                ?w\<lparr>port_heap := (port_heap ?w)(1 \<mapsto> (receiver_port [])\<lparr>buffer := buffer (receiver_port []) @ [?m]\<rparr>),
                  lock_trace := lock_trace ?w @ [Lock 1, Unlock 1, Lock_task 0, Unlock_task 0]\<rparr>)"
    by (rule chan_sent_append [OF tt th tk(2) ph tk(1) pk(1) pk(2) tk(3)])
  have w: "on_write \<lparr>wd_cd = 7, wd_buf = 8, wd_len = 3,
                     wd_chan = \<lparr>chan_task = 0, chan_port = 0\<rparr>\<rparr> ?w =
             map_sum id snd (chan_id_send 0 0 ?m ?w)"
    by (simp add: on_write_def on_write_msg_def uv_send_chan_id_send)
  show ?thesis
    unfolding w c
    by (simp add: on_connect_msg_def on_read_msg_def timer_tag_def wrote_tag_def
          receiver_world_def empty_world_def receiver_port_def)
qed

section \<open>Properties of scheduler creation\<close>

lemma create_scheduler_eq:
  assumes "n \<noteq> 0"
  shows "create_scheduler n k =
           Inr (max_sched_id k,
                k\<lparr>max_sched_id := max_sched_id k + 1,
                  sched_table := (sched_table k)
                     (max_sched_id k \<mapsto> new_rust_scheduler n (max_sched_id k))\<rparr>,
                each_thread Launcher_start n)"
  using assms
  by (simp add: create_scheduler_def start_task_threads_def new_rust_scheduler_def Let_def)

lemma rust_new_sched_eq:
  assumes "n \<noteq> 0"
  shows "rust_new_sched n k = create_scheduler n k"
proof -
  have "0 < n" using assms by (simp add: word_neq_0_conv)
  then show ?thesis by (simp add: rust_new_sched_def)
qed

text \<open>
  Claim C7.  \<open>rust_new_sched\<close>, the entry point through which user code reaches
  \<open>create_scheduler\<close>, fails its own check \<open>A(threads > 0)\<close> when \<open>threads\<close> is 0:
  the failure is that of the assertion, and for no argument and no kernel is the
  result an \<open>InvalidArg\<close> error.  For \<open>n \<ge> 1\<close>, in a kernel whose registered ids are
  all below the next id, \<open>rust_new_sched n\<close> is \<open>create_scheduler n\<close>: it returns the
  next id, which no registered scheduler has, registers under it a new scheduler with
  \<open>n\<close> workers (all live, no tasks yet), starts the \<open>n\<close> workers, leaves the other
  registrations as they were and advances the allocator, so that the ids stay below
  the next id.
\<close>

theorem rust_new_sched_fresh_id:
  "rust_new_sched 0 k = Inl (Assert_failed ''threads > 0'')
   \<and> rust_new_sched n k \<noteq> Inl InvalidArg
   \<and> (n \<noteq> 0 \<and> ids_below_next k \<longrightarrow>
        (\<exists>k'. rust_new_sched n k = Inr (max_sched_id k, k', each_thread Launcher_start n)
           \<and> create_scheduler n k = rust_new_sched n k
           \<and> max_sched_id k \<notin> dom (sched_table k)
           \<and> sched_table k' = (sched_table k)
                (max_sched_id k \<mapsto> new_rust_scheduler n (max_sched_id k))
           \<and> num_threads (new_rust_scheduler n (max_sched_id k)) = n
           \<and> live_threads (new_rust_scheduler n (max_sched_id k)) = n
           \<and> live_tasks (new_rust_scheduler n (max_sched_id k)) = 0
           \<and> sched_id (new_rust_scheduler n (max_sched_id k)) = max_sched_id k
           \<and> length (each_thread Launcher_start n) = unat n
           \<and> max_sched_id k' = max_sched_id k + 1
           \<and> ids_below_next k'))"
proof (intro conjI impI)
  show "rust_new_sched 0 k = Inl (Assert_failed ''threads > 0'')"
    by (simp add: rust_new_sched_def)
  show "rust_new_sched n k \<noteq> Inl InvalidArg"
  proof (cases "n = 0")
    case True
    then show ?thesis by (simp add: rust_new_sched_def)
  next
    case False
    then show ?thesis by (simp add: rust_new_sched_eq create_scheduler_eq)
  qed
next
  assume a: "n \<noteq> 0 \<and> ids_below_next k"
  then have n: "n \<noteq> 0" and b: "ids_below_next k" by simp_all
  have fresh: "max_sched_id k \<notin> dom (sched_table k)"
    using b unfolding ids_below_next_def by force
  let ?k' = "k\<lparr>max_sched_id := max_sched_id k + 1,
                sched_table := (sched_table k)
                   (max_sched_id k \<mapsto> new_rust_scheduler n (max_sched_id k))\<rparr>"
  have below: "ids_below_next ?k'"
    using b unfolding ids_below_next_def by (auto simp add: dom_def)
  show "\<exists>k'. rust_new_sched n k = Inr (max_sched_id k, k', each_thread Launcher_start n)
           \<and> create_scheduler n k = rust_new_sched n k
           \<and> max_sched_id k \<notin> dom (sched_table k)
           \<and> sched_table k' = (sched_table k)
                (max_sched_id k \<mapsto> new_rust_scheduler n (max_sched_id k))
           \<and> num_threads (new_rust_scheduler n (max_sched_id k)) = n
           \<and> live_threads (new_rust_scheduler n (max_sched_id k)) = n
           \<and> live_tasks (new_rust_scheduler n (max_sched_id k)) = 0
           \<and> sched_id (new_rust_scheduler n (max_sched_id k)) = max_sched_id k
           \<and> length (each_thread Launcher_start n) = unat n
           \<and> max_sched_id k' = max_sched_id k + 1
           \<and> ids_below_next k'"
    apply (rule exI [of _ ?k'])
    using fresh below
    apply (simp add: rust_new_sched_eq [OF n] create_scheduler_eq [OF n] new_rust_scheduler_def
             each_thread_def)
    done
qed

text \<open>
  In a kernel with schedulers 0 and 1 registered, a scheduler with three workers gets
  the id 2, which neither of them has, and both stay registered.
\<close>

theorem rust_new_sched_fresh_id_witness:
  "(3 :: size_t) \<noteq> 0 \<and> ids_below_next busy_kernel
   \<and> rust_new_sched 3 busy_kernel =
       Inr (2, \<lparr>max_sched_id = 3,
                sched_table = [0 \<mapsto> new_rust_scheduler 1 0, 1 \<mapsto> new_rust_scheduler 2 1,
                               2 \<mapsto> new_rust_scheduler 3 2]\<rparr>,
            [Launcher_start 0, Launcher_start 1, Launcher_start 2])
   \<and> 2 \<notin> dom (sched_table busy_kernel)
   \<and> create_scheduler 3 busy_kernel = rust_new_sched 3 busy_kernel
   \<and> ids_below_next \<lparr>max_sched_id = 3,
          sched_table = [0 \<mapsto> new_rust_scheduler 1 0, 1 \<mapsto> new_rust_scheduler 2 1,
                         2 \<mapsto> new_rust_scheduler 3 2]\<rparr>"
proof -
  have h: "(3 :: size_t) \<noteq> 0 \<and> ids_below_next busy_kernel"
    by (simp add: ids_below_next_def busy_kernel_def)
  have three: "[0..<3] = [0, 1, 2]" by (simp add: upt_rec)
  from rust_new_sched_fresh_id [of busy_kernel 3, THEN conjunct2, THEN conjunct2,
      rule_format, OF h]
  obtain k' where
    r: "rust_new_sched 3 busy_kernel =
          Inr (max_sched_id busy_kernel, k', each_thread Launcher_start 3)"
    and c: "create_scheduler 3 busy_kernel = rust_new_sched 3 busy_kernel"
    and f: "max_sched_id busy_kernel \<notin> dom (sched_table busy_kernel)"
    and t: "sched_table k' = (sched_table busy_kernel)
                (max_sched_id busy_kernel \<mapsto> new_rust_scheduler 3 (max_sched_id busy_kernel))"
    and m: "max_sched_id k' = max_sched_id busy_kernel + 1"
    and b: "ids_below_next k'"
    by blast
  have k': "k' = \<lparr>max_sched_id = 3,
                   sched_table = [0 \<mapsto> new_rust_scheduler 1 0, 1 \<mapsto> new_rust_scheduler 2 1,
                                  2 \<mapsto> new_rust_scheduler 3 2]\<rparr>"
    using t m by (cases k') (simp add: busy_kernel_def)
  have f2: "2 \<notin> dom (sched_table busy_kernel)"
    using f by (simp add: busy_kernel_def)
  show ?thesis
    using h b f2 unfolding c r k'
    by (simp add: busy_kernel_def each_thread_def three)
qed

text \<open>
  With no worker thread asked for, the call fails at the assertion of
  \<open>rust_new_sched\<close>; the error is not \<open>InvalidArg\<close>.
\<close>

theorem rust_new_sched_zero_asserts:
  "rust_new_sched 0 busy_kernel = Inl (Assert_failed ''threads > 0'')
   \<and> rust_new_sched 0 busy_kernel \<noteq> Inl InvalidArg"
  by (simp add: rust_new_sched_def)

section \<open>Properties of the scheduling loop and of reaping\<close>

lemma get_list_set_list [simp]:
  "get_list l (set_list s ts w) = (if l = s then ts else get_list l w)"
  by (cases l; cases s) simp_all

lemma set_list_fields [simp]:
  "task_heap (set_list s ts w) = task_heap w"
  "task_table (set_list s ts w) = task_table w"
  "max_task_id (set_list s ts w) = max_task_id w"
  "call_trace (set_list s ts w) = call_trace w"
  "port_heap (set_list s ts w) = port_heap w"
  by (cases s; simp)+

lemma get_list_updates [simp]:
  "get_list l (w\<lparr>task_heap := h\<rparr>) = get_list l w"
  "get_list l (w\<lparr>signals := n\<rparr>) = get_list l w"
  "get_list l (w\<lparr>call_trace := c\<rparr>) = get_list l w"
  "get_list l (w\<lparr>task_table := tt\<rparr>) = get_list l w"
  "get_list l (w\<lparr>max_task_id := m\<rparr>) = get_list l w"
  by (cases l; simp)+

lemma get_list_Dead [simp]: "get_list Dead w = dead_tasks w"
  by simp


lemma listed_updates [simp]:
  "listed (w\<lparr>task_heap := h\<rparr>) u = listed w u"
  "listed (w\<lparr>call_trace := c\<rparr>) u = listed w u"
  "listed (w\<lparr>task_table := tt\<rparr>) u = listed w u"
  "listed (w\<lparr>max_task_id := m\<rparr>) u = listed w u"
  by (simp_all add: listed_def)

lemma released_ids_append [simp]:
  "released_ids (cs @ ds) = released_ids cs @ released_ids ds"
  by (induction cs rule: released_ids.induct) simp_all

lemma registered_ids_append [simp]:
  "registered_ids (cs @ ds) = registered_ids cs @ registered_ids ds"
  by (induction cs rule: registered_ids.induct) simp_all










lemma dead_ok_same:
  "dead_tasks w' = dead_tasks w \<Longrightarrow> dead_ok active w \<Longrightarrow> dead_ok active w'"
  by (simp add: dead_ok_def)































end
